theory Spec2Isabelle
  imports Complex_Main "HOL-Library.Word" "HOL-Library.Log_Nat"
begin

section \<open>ledradar: rain radar sampling for a list of cities\<close>

text \<open>
  A shallow embedding of \<^verbatim>\<open>ledradar.go\<close>. The program downloads a radar image every
  minute, projects every city of \<^verbatim>\<open>mesta.csv\<close> onto a pixel, averages the colour around it
  and publishes the cities where that colour is not black.

  Go's \<^verbatim>\<open>int\<close> is the 64-bit integer of the platforms the Dockerfile builds for: values
  are \<^typ>\<open>int\<close> and the wrap-around is written out where a sum can leave the range.
  \<^verbatim>\<open>uint8\<close> and \<^verbatim>\<open>uint32\<close> are words. \<^verbatim>\<open>float64\<close> is modelled exactly: a value is a
  rational on the binary64 grid, an infinity or NaN, and every operation rounds to nearest,
  ties to even.
\<close>

subsection \<open>float64\<close>

datatype f64 = Fin rat | PInf | NInf | NaN

definition pow2 :: "int \<Rightarrow> rat" where
  "pow2 e = (if 0 \<le> e then 2 ^ nat e else 1 / 2 ^ nat (- e))"

text \<open>The binary exponent of a positive rational: \<open>pow2 (ilog2 q) \<le> q < pow2 (ilog2 q + 1)\<close>.\<close>

definition ilog2 :: "rat \<Rightarrow> int" where
  "ilog2 q = (case quotient_of q of (a, b) \<Rightarrow>
     let k = bitlen a - bitlen b in if pow2 k \<le> q then k else k - 1)"

definition round_half_even :: "rat \<Rightarrow> int" where
  "round_half_even q = (let f = \<lfloor>q\<rfloor>; d = q - of_int f in
     if d < 1 / 2 then f else if 1 / 2 < d then f + 1 else if even f then f else f + 1)"

text \<open>
  Rounding a rational to binary64: 53 significant bits, the subnormal grid \<open>2 ^ -1074\<close> at
  the bottom, overflow to an infinity at the top. The sign of a zero is not kept; no
  division of the program has a negative zero as its divisor.
\<close>

definition f64_exp :: "rat \<Rightarrow> int" where
  "f64_exp q = max (ilog2 \<bar>q\<bar> - 52) (- 1074)"

definition rnd :: "rat \<Rightarrow> rat" where
  "rnd q = of_int (round_half_even (q / pow2 (f64_exp q))) * pow2 (f64_exp q)"

definition f64_round :: "rat \<Rightarrow> f64" where
  "f64_round q =
     (if q = 0 then Fin 0
      else let r = rnd q
           in if 2 ^ 1024 \<le> r then PInf else if r \<le> - (2 ^ 1024) then NInf else Fin r)"

text \<open>The rationals that are float64 values.\<close>

definition is_f64 :: "rat \<Rightarrow> bool" where
  "is_f64 q \<longleftrightarrow> f64_round q = Fin q"

fun f64_sub :: "f64 \<Rightarrow> f64 \<Rightarrow> f64" where
  "f64_sub (Fin a) (Fin b) = f64_round (a - b)"
| "f64_sub NaN _ = NaN"
| "f64_sub _ NaN = NaN"
| "f64_sub PInf PInf = NaN"
| "f64_sub NInf NInf = NaN"
| "f64_sub PInf _ = PInf"
| "f64_sub NInf _ = NInf"
| "f64_sub _ PInf = NInf"
| "f64_sub _ NInf = PInf"

fun f64_div :: "f64 \<Rightarrow> f64 \<Rightarrow> f64" where
  "f64_div (Fin a) (Fin b) =
     (if b = 0 then (if a = 0 then NaN else if 0 < a then PInf else NInf)
      else f64_round (a / b))"
| "f64_div NaN _ = NaN"
| "f64_div _ NaN = NaN"
| "f64_div (Fin a) _ = Fin 0"
| "f64_div PInf (Fin b) = (if 0 \<le> b then PInf else NInf)"
| "f64_div NInf (Fin b) = (if 0 \<le> b then NInf else PInf)"
| "f64_div _ _ = NaN"

text \<open>\<^verbatim>\<open>float64(n)\<close> of an integer.\<close>

definition f64_of_int :: "int \<Rightarrow> f64" where
  "f64_of_int n = f64_round (of_int n)"

definition rat_trunc :: "rat \<Rightarrow> int" where
  "rat_trunc q = (if 0 \<le> q then \<lfloor>q\<rfloor> else \<lceil>q\<rceil>)"

text \<open>
  \<^verbatim>\<open>int(v)\<close> of a float64 discards the fraction. For a value that no \<^verbatim>\<open>int\<close> represents
  (too large, an infinity, NaN) the language leaves the result to the implementation:
  \<open>impl\<close> is that choice, some 64-bit value.
\<close>

definition f64_to_int :: "(f64 \<Rightarrow> 64 word) \<Rightarrow> f64 \<Rightarrow> int" where
  "f64_to_int impl v =
     (case v of
        Fin q \<Rightarrow> if - (2 ^ 63) \<le> rat_trunc q \<and> rat_trunc q < 2 ^ 63 then rat_trunc q
                 else sint (impl v)
      | _ \<Rightarrow> sint (impl v))"

definition wrap64 :: "int \<Rightarrow> int" where
  "wrap64 v = (v + 2 ^ 63) mod 2 ^ 64 - 2 ^ 63"

subsection \<open>The corners of the radar image (WGS-84 degrees)\<close>

definition lon0 :: rat where "lon0 = 112673442 / 10000000"
definition lat0 :: rat where "lat0 = 521670717 / 10000000"
definition lon1 :: rat where "lon1 = 207703153 / 10000000"
definition lat1 :: rat where "lat1 = 481 / 10"

subsection \<open>\<^verbatim>\<open>image.NRGBA\<close>, as the standard library defines it\<close>

datatype NRGBA = NRGBA (cR: "8 word") (cG: "8 word") (cB: "8 word") (cA: "8 word")

record Rectangle =
  MinX :: int
  MinY :: int
  MaxX :: int
  MaxY :: int

record NRGBA_image =
  Pix :: "8 word list"
  Stride :: int
  Rect :: Rectangle

definition Dx :: "Rectangle \<Rightarrow> int" where
  "Dx r = MaxX r - MinX r"

definition Dy :: "Rectangle \<Rightarrow> int" where
  "Dy r = MaxY r - MinY r"

definition point_in :: "int \<Rightarrow> int \<Rightarrow> Rectangle \<Rightarrow> bool" where
  "point_in x y r \<longleftrightarrow> MinX r \<le> x \<and> x < MaxX r \<and> MinY r \<le> y \<and> y < MaxY r"

definition PixOffset :: "NRGBA_image \<Rightarrow> int \<Rightarrow> int \<Rightarrow> int" where
  "PixOffset p x y = (y - MinY (Rect p)) * Stride p + (x - MinX (Rect p)) * 4"

text \<open>
  \<^verbatim>\<open>At\<close> answers the zero colour outside the rectangle and reads four bytes of \<^verbatim>\<open>Pix\<close>
  inside it. \<open>None\<close> is the run-time panic of a slice expression out of range.
\<close>

definition At :: "NRGBA_image \<Rightarrow> int \<Rightarrow> int \<Rightarrow> NRGBA option" where
  "At p x y =
     (if \<not> point_in x y (Rect p) then Some (NRGBA 0 0 0 0)
      else let i = PixOffset p x y in
        if 0 \<le> i \<and> i + 4 \<le> int (length (Pix p))
        then Some (NRGBA (Pix p ! nat i) (Pix p ! nat (i + 1))
                         (Pix p ! nat (i + 2)) (Pix p ! nat (i + 3)))
        else None)"

text \<open>One channel of \<^verbatim>\<open>color.NRGBA.RGBA\<close>: widened to 16 bits and multiplied by alpha.\<close>

definition premul :: "8 word \<Rightarrow> 8 word \<Rightarrow> 32 word" where
  "premul v a = (let r = (ucast v :: 32 word); r = or r (push_bit 8 r); r = r * ucast a
                 in r div 0xff)"

definition RGBA :: "NRGBA \<Rightarrow> 32 word \<times> 32 word \<times> 32 word \<times> 32 word" where
  "RGBA c = (premul (cR c) (cA c), premul (cG c) (cA c), premul (cB c) (cA c),
             (let a = (ucast (cA c) :: 32 word) in or a (push_bit 8 a)))"

text \<open>\<^verbatim>\<open>image.Rect\<close> orders its corners; \<^verbatim>\<open>Intersect\<close> answers the zero rectangle when empty.\<close>

definition image_Rect :: "int \<Rightarrow> int \<Rightarrow> int \<Rightarrow> int \<Rightarrow> Rectangle" where
  "image_Rect x0 y0 x1 y1 =
     \<lparr>MinX = min x0 x1, MinY = min y0 y1, MaxX = max x0 x1, MaxY = max y0 y1\<rparr>"

definition Empty :: "Rectangle \<Rightarrow> bool" where
  "Empty r \<longleftrightarrow> MinX r \<ge> MaxX r \<or> MinY r \<ge> MaxY r"

definition Intersect :: "Rectangle \<Rightarrow> Rectangle \<Rightarrow> Rectangle" where
  "Intersect r s =
     (let r = \<lparr>MinX = max (MinX r) (MinX s), MinY = max (MinY r) (MinY s),
               MaxX = min (MaxX r) (MaxX s), MaxY = min (MaxY r) (MaxY s)\<rparr>
      in if Empty r then \<lparr>MinX = 0, MinY = 0, MaxX = 0, MaxY = 0\<rparr> else r)"

definition set_pixel :: "NRGBA \<Rightarrow> int \<times> int \<Rightarrow> NRGBA_image \<Rightarrow> NRGBA_image" where
  "set_pixel c xy p =
     (let i = nat (PixOffset p (fst xy) (snd xy))
      in p\<lparr>Pix := (Pix p)[i := cR c, i + 1 := cG c, i + 2 := cB c, i + 3 := cA c]\<rparr>)"

text \<open>
  \<^verbatim>\<open>draw.Draw(dst, r, &image.Uniform{c}, image.Point{}, draw.Src)\<close> for an opaque \<open>c\<close>:
  the rectangle is clipped to the destination and to the source (a uniform image spans
  \<open>\<plusminus> 10^9\<close>, moved by the rectangle's corner), then filled.
\<close>

definition Draw :: "NRGBA_image \<Rightarrow> Rectangle \<Rightarrow> NRGBA \<Rightarrow> NRGBA_image" where
  "Draw dst r c =
     (let r1 = Intersect r (Rect dst);
          r2 = Intersect r1 \<lparr>MinX = wrap64 (- 1000000000 + MinX r), MinY = wrap64 (- 1000000000 + MinY r),
                             MaxX = wrap64 (1000000000 + MinX r), MaxY = wrap64 (1000000000 + MinY r)\<rparr>
      in fold (set_pixel c) (List.product [MinX r2..MaxX r2 - 1] [MinY r2..MaxY r2 - 1]) dst)"

subsection \<open>\<^verbatim>\<open>getAvgColor\<close>\<close>

type_synonym totals = "32 word \<times> 32 word \<times> 32 word \<times> 32 word"

text \<open>The body of the two nested loops, for the offset \<open>(xx, yy)\<close>.\<close>

definition sample :: "NRGBA_image \<Rightarrow> int \<Rightarrow> int \<Rightarrow> int \<times> int \<Rightarrow> totals option \<Rightarrow> totals option" where
  "sample bitmap x y d acc =
     (case acc of None \<Rightarrow> None
      | Some (totalR, totalG, totalB, total') \<Rightarrow>
        (case At bitmap (wrap64 (x + fst d)) (wrap64 (y + snd d)) of None \<Rightarrow> None
         | Some c \<Rightarrow> (case RGBA c of (r, g, b, _) \<Rightarrow>
             Some (totalR + r div 257, totalG + g div 257, totalB + b div 257, total' + 1))))"

definition getAvgColor :: "NRGBA_image \<Rightarrow> int \<Rightarrow> int \<Rightarrow> (8 word \<times> 8 word \<times> 8 word) option" where
  "getAvgColor bitmap x y =
     (case fold (sample bitmap x y) (List.product [-4..4] [-4..4]) (Some (0, 0, 0, 0)) of
        None \<Rightarrow> None
      | Some (totalR, totalG, totalB, total') \<Rightarrow>
          Some (ucast (totalR div total'), ucast (totalG div total'), ucast (totalB div total')))"

subsection \<open>The handler and its cities\<close>

record City =
  ID :: int
  Name :: string
  Lat :: f64
  Lon :: f64
  R :: "8 word"
  G :: "8 word"
  B :: "8 word"

text \<open>
  Both slices of the handler hold pointers to the same \<^verbatim>\<open>City\<close> objects. \<^verbatim>\<open>LoadCities\<close>
  allocates one object per record and appends its pointer, so the object of a pointer is
  its position in \<open>Cities\<close>: \<open>Cities\<close> is the store of the objects and
  \<open>CitiesWithRain\<close> a list of positions. \<open>m_locked\<close> is the writer side of the mutex.
\<close>

record Handler =
  m_locked :: bool
  Cities :: "City list"
  CitiesWithRain :: "nat list"

text \<open>The records of \<^verbatim>\<open>mesta.csv\<close>, already parsed: identifier, name, latitude, longitude.\<close>

definition LoadCities :: "(int \<times> string \<times> f64 \<times> f64) list \<Rightarrow> Handler" where
  "LoadCities records =
     \<lparr>m_locked = False,
      Cities = map (\<lambda>(i, n, la, lo). \<lparr>ID = i, Name = n, Lat = la, Lon = lo, R = 0, G = 0, B = 0\<rparr>) records,
      CitiesWithRain = []\<rparr>"

text \<open>What \<^verbatim>\<open>HandleGet\<close> encodes: the objects \<open>CitiesWithRain\<close> points to.\<close>

definition HandleGet :: "Handler \<Rightarrow> City list" where
  "HandleGet h = map (\<lambda>i. Cities h ! i) (CitiesWithRain h)"

subsection \<open>The world around one pass of the loop\<close>

record Response =
  StatusCode :: int
  Body :: "8 word list"

text \<open>A decoded image of any kind: its size and the colour of each pixel.\<close>

record decoded =
  width :: nat
  height :: nat
  pixel :: "nat \<Rightarrow> nat \<Rightarrow> NRGBA"

text \<open>
  What the outside answers during one pass: the clock, the directory listing, which file
  operations fail, the HTTP response, the decoder. Times are nanoseconds.
\<close>

record tick_env =
  now :: int
  formattedDate :: string
  os_ReadDir :: "string list"
  Info_err :: "string \<Rightarrow> bool"
  Remove_err :: "string \<Rightarrow> bool"
  Stat_err :: bool
  http_Get :: "string \<Rightarrow> Response option \<times> bool"
  imaging_Decode :: "8 word list \<Rightarrow> decoded option"
  Create_err :: bool
  Encode_err :: bool
  f2i :: "f64 \<Rightarrow> 64 word"

text \<open>
  The state the loop works on: the files of the working directory with their
  modification times, the handler, and a count of the HTTP requests issued so far.
\<close>

record world =
  files :: "string \<Rightarrow> int option"
  handler :: Handler
  gets :: nat

datatype 'a go = Result 'a | Panic

datatype status = Running | Exited | Panicked

definition Hour :: int where
  "Hour = 3600 * 1000000000"

definition HasPrefix :: "string \<Rightarrow> string \<Rightarrow> bool" where
  "HasPrefix s pre \<longleftrightarrow> take (length pre) s = pre"

text \<open>The loop that deletes old \<^verbatim>\<open>radar_a_mesta_*.png\<close> files.\<close>

fun sweep :: "tick_env \<Rightarrow> string list \<Rightarrow> (string \<Rightarrow> int option) \<Rightarrow> (string \<Rightarrow> int option)" where
  "sweep env [] fs = fs"
| "sweep env (name # rest) fs =
     (if \<not> HasPrefix name ''radar_a_mesta_'' then sweep env rest fs
      else case (if Info_err env name then None else fs name) of
             None \<Rightarrow> sweep env rest fs
           | Some modTime \<Rightarrow>
               if now env - modTime < Hour then sweep env rest fs
               else if Remove_err env name then sweep env rest fs
               else sweep env rest (fs(name := None)))"

definition format :: string where
  "format = ''20060102.1504''"

text \<open>\<^verbatim>\<open>formattedDate[:len(format)-1] + "0"\<close>; \<open>None\<close> is the panic of a slice out of range.\<close>

definition dateTxt_of :: "string \<Rightarrow> string option" where
  "dateTxt_of fd =
     (if length fd < length format - 1 then None
      else Some (take (length format - 1) fd @ ''0''))"

definition artifact :: "string \<Rightarrow> string" where
  "artifact dateTxt = ''radar_a_mesta_'' @ dateTxt @ ''.png''"

definition radar_url :: "string \<Rightarrow> string" where
  "radar_url dateTxt =
     ''https://www.chmi.cz/files/portal/docs/meteo/rad/inca-cz/data/czrad-z_max3d/pacz2gmaps3.z_max3d.''
       @ dateTxt @ ''.0.png''"

text \<open>
  \<^verbatim>\<open>downloadRadar\<close>. \<^verbatim>\<open>http.Get\<close> answers a response and an error; the condition reads
  \<^verbatim>\<open>resp.StatusCode\<close> only when there is no error, the log line of the failure branch reads
  it always, and reading it from a nil response panics. \<open>Result None\<close> is the nil slice.
\<close>

definition downloadRadar :: "tick_env \<Rightarrow> string \<Rightarrow> 8 word list option go" where
  "downloadRadar env dateTxt =
     (case http_Get env (radar_url dateTxt) of
        (resp, err) \<Rightarrow>
          (case (if err then Some True else map_option (\<lambda>r. StatusCode r \<noteq> 200) resp) of
             None \<Rightarrow> Panic
           | Some True \<Rightarrow> (case resp of None \<Rightarrow> Panic | Some _ \<Rightarrow> Result None)
           | Some False \<Rightarrow> Result (map_option Body resp)))"

text \<open>\<^verbatim>\<open>imaging.Clone\<close>: a fresh NRGBA image at the origin, rows of \<open>4 * width\<close> bytes.\<close>

definition Clone :: "decoded \<Rightarrow> NRGBA_image" where
  "Clone img =
     \<lparr>Pix = concat (map (\<lambda>y. concat (map (\<lambda>x. case pixel img x y of
                NRGBA r g b a \<Rightarrow> [r, g, b, a]) [0..<width img])) [0..<height img]),
      Stride = 4 * int (width img),
      Rect = \<lparr>MinX = 0, MinY = 0, MaxX = int (width img), MaxY = int (height img)\<rparr>\<rparr>"

definition lonPixelSize :: "NRGBA_image \<Rightarrow> f64" where
  "lonPixelSize bitmap = f64_div (f64_round (lon1 - lon0)) (f64_of_int (Dx (Rect bitmap)))"

definition latPixelSize :: "NRGBA_image \<Rightarrow> f64" where
  "latPixelSize bitmap = f64_div (f64_round (lat0 - lat1)) (f64_of_int (Dy (Rect bitmap)))"

text \<open>The pixel of a city: the two conversions at the head of the loop body.\<close>

definition project :: "(f64 \<Rightarrow> 64 word) \<Rightarrow> f64 \<Rightarrow> f64 \<Rightarrow> f64 \<Rightarrow> f64 \<Rightarrow> int \<times> int" where
  "project impl lonPx latPx lat lon =
     (let x = f64_to_int impl (f64_div (f64_sub lon (f64_round lon0)) lonPx);
          y = f64_to_int impl (f64_div (f64_sub (f64_round lat0) lat) latPx)
      in (x, y))"

definition marker :: "int \<Rightarrow> int \<Rightarrow> Rectangle" where
  "marker x y = image_Rect (wrap64 (x - 5)) (wrap64 (y - 5)) (wrap64 (x + 5)) (wrap64 (y + 5))"

text \<open>The body of the loop over \<open>Cities\<close>, for the city at position \<open>i\<close>.\<close>

definition classify ::
  "(f64 \<Rightarrow> 64 word) \<Rightarrow> f64 \<Rightarrow> f64 \<Rightarrow> nat \<Rightarrow> (NRGBA_image \<times> Handler) go \<Rightarrow> (NRGBA_image \<times> Handler) go" where
  "classify impl lonPx latPx i st =
     (case st of Panic \<Rightarrow> Panic
      | Result (bitmap, h) \<Rightarrow>
          let city = Cities h ! i;
              (x, y) = project impl lonPx latPx (Lat city) (Lon city)
          in case getAvgColor bitmap x y of None \<Rightarrow> Panic
             | Some (r, g, b) \<Rightarrow>
                 if r + g + b > 0
                 then Result (Draw bitmap (marker x y) (NRGBA r g b 255),
                        h\<lparr>Cities := (Cities h)[i := city\<lparr>R := r, G := g, B := b\<rparr>],
                          CitiesWithRain := CitiesWithRain h @ [i]\<rparr>)
                 else Result (Draw bitmap (marker x y) (NRGBA 0 0 0 255), h))"

text \<open>
  From \<^verbatim>\<open>h.m.Lock()\<close> into the loop over the cities: the state when the loop reaches
  position \<open>i\<close>. The pixel sizes are computed once, from the image as decoded.
\<close>

definition loop_at :: "(f64 \<Rightarrow> 64 word) \<Rightarrow> NRGBA_image \<Rightarrow> Handler \<Rightarrow> nat \<Rightarrow> (NRGBA_image \<times> Handler) go" where
  "loop_at impl bitmap h i =
     fold (classify impl (lonPixelSize bitmap) (latPixelSize bitmap)) [0..<i]
       (Result (bitmap, h\<lparr>m_locked := True, CitiesWithRain := []\<rparr>))"

definition classify_all :: "(f64 \<Rightarrow> 64 word) \<Rightarrow> NRGBA_image \<Rightarrow> Handler \<Rightarrow> (NRGBA_image \<times> Handler) go" where
  "classify_all impl bitmap h = loop_at impl bitmap h (length (Cities h))"

text \<open>
  The first half of one pass of the loop of \<^verbatim>\<open>BackgroundLoop\<close>: the old files are
  deleted, the name of the ten-minute file is computed and looked up, the image is
  downloaded and decoded. \<open>Inl\<close> is a pass that ends here, \<open>Inr\<close> one that goes on with
  the decoded image. \<^verbatim>\<open>log.Fatal\<close> ends the process (\<open>Exited\<close>); a panic ends it too.
\<close>

definition prepare :: "tick_env \<Rightarrow> world \<Rightarrow> status \<times> world + string \<times> decoded \<times> world" where
  "prepare env w0 =
     (let w = w0\<lparr>files := sweep env (os_ReadDir env) (files w0)\<rparr> in
      case dateTxt_of (formattedDate env) of None \<Rightarrow> Inl (Panicked, w)
      | Some dateTxt \<Rightarrow>
          if files w (artifact dateTxt) \<noteq> None \<and> \<not> Stat_err env then Inl (Running, w)
          else let w = w\<lparr>gets := gets w + 1\<rparr> in
            (case downloadRadar env dateTxt of Panic \<Rightarrow> Inl (Panicked, w)
             | Result None \<Rightarrow> Inl (Running, w)
             | Result (Some content) \<Rightarrow>
                 (case imaging_Decode env content of None \<Rightarrow> Inl (Exited, w)
                  | Some img \<Rightarrow> Inr (dateTxt, img, w))))"

text \<open>
  One whole pass. After the loop over the cities the image is written; \<^verbatim>\<open>log.Fatal\<close>
  on a failure there ends the process without running the deferred \<^verbatim>\<open>Unlock\<close>.
\<close>

definition tick :: "tick_env \<Rightarrow> world \<Rightarrow> status \<times> world" where
  "tick env w0 =
     (case prepare env w0 of Inl end \<Rightarrow> end
      | Inr (dateTxt, img, w) \<Rightarrow>
          (case classify_all (f2i env) (Clone img) (handler w) of
             Panic \<Rightarrow> (Panicked, w)
           | Result (bitmap, h) \<Rightarrow>
               if Create_err env then (Exited, w\<lparr>handler := h\<rparr>)
               else let w = w\<lparr>handler := h,
                              files := (files w)(artifact dateTxt \<mapsto> now env)\<rparr>
                 in if Encode_err env then (Exited, w)
                    else (Running, w\<lparr>handler := h\<lparr>m_locked := False\<rparr>\<rparr>)))"

text \<open>The loop itself, for as many passes as there are answers of the outside.\<close>

fun run :: "tick_env list \<Rightarrow> world \<Rightarrow> status \<times> world" where
  "run [] w = (Running, w)"
| "run (env # envs) w =
     (case tick env w of (Running, w') \<Rightarrow> run envs w' | (st, w') \<Rightarrow> (st, w'))"

text \<open>The state of the process when \<^verbatim>\<open>main\<close> starts the loop.\<close>

definition start :: "(string \<Rightarrow> int option) \<Rightarrow> (int \<times> string \<times> f64 \<times> f64) list \<Rightarrow> world" where
  "start fs records = \<lparr>files = fs, handler = LoadCities records, gets = 0\<rparr>"

subsection \<open>Notions the statements use\<close>

text \<open>
  An image whose buffer holds every pixel of its rectangle, as \<^verbatim>\<open>image.NewNRGBA\<close>
  builds them.
\<close>

definition wf_image :: "NRGBA_image \<Rightarrow> bool" where
  "wf_image p \<longleftrightarrow> 0 \<le> Dx (Rect p) \<and> 0 \<le> Dy (Rect p) \<and> 4 * Dx (Rect p) \<le> Stride p
     \<and> Stride p * Dy (Rect p) \<le> int (length (Pix p))"

text \<open>The 81 pixels \<^verbatim>\<open>getAvgColor\<close> reads around \<open>(x, y)\<close> all lie outside the image.\<close>

definition outside :: "NRGBA_image \<Rightarrow> int \<Rightarrow> int \<Rightarrow> bool" where
  "outside bitmap x y \<longleftrightarrow>
     (\<forall>d \<in> set (List.product [-4..4] [-4..4]).
        \<not> point_in (wrap64 (x + fst d)) (wrap64 (y + snd d)) (Rect bitmap))"

text \<open>
  What the pass that starts from \<open>bitmap\<close> samples for the city at position \<open>i\<close>, on the
  image as the markers of the cities before it have left it, and its verdict.
\<close>

definition sampled :: "(f64 \<Rightarrow> 64 word) \<Rightarrow> NRGBA_image \<Rightarrow> Handler \<Rightarrow> nat \<Rightarrow> (8 word \<times> 8 word \<times> 8 word) option" where
  "sampled impl bitmap h i =
     (case loop_at impl bitmap h i of Panic \<Rightarrow> None
      | Result (b, h') \<Rightarrow>
          (case project impl (lonPixelSize bitmap) (latPixelSize bitmap)
                  (Lat (Cities h ! i)) (Lon (Cities h ! i)) of
             (x, y) \<Rightarrow> getAvgColor b x y))"

definition rains :: "(f64 \<Rightarrow> 64 word) \<Rightarrow> NRGBA_image \<Rightarrow> Handler \<Rightarrow> nat \<Rightarrow> bool" where
  "rains impl bitmap h i =
     (case sampled impl bitmap h i of None \<Rightarrow> False | Some (r, g, b) \<Rightarrow> 0 < r + g + b)"

subsection \<open>Notions the proofs use\<close>

text \<open>A city with the colour the loop has stored in it.\<close>

definition paint :: "City \<Rightarrow> 8 word \<times> 8 word \<times> 8 word \<Rightarrow> City" where
  "paint city c = (case c of (r, g, b) \<Rightarrow> city\<lparr>R := r, G := g, B := b\<rparr>)"

text \<open>
  The invariant of the loop over the cities when it reaches position \<open>i\<close>, started from
  \<open>bitmap\<close> and the handler \<open>h\<close>: the image keeps its shape, the new list holds the
  positions before \<open>i\<close> with a raining verdict, and exactly their objects were written.
\<close>

definition loop_inv ::
  "(f64 \<Rightarrow> 64 word) \<Rightarrow> NRGBA_image \<Rightarrow> Handler \<Rightarrow> nat \<Rightarrow> NRGBA_image \<Rightarrow> Handler \<Rightarrow> bool" where
  "loop_inv impl bitmap h i b h' \<longleftrightarrow>
     wf_image b \<and> Rect b = Rect bitmap \<and> m_locked h' \<and> length (Cities h') = length (Cities h)
     \<and> CitiesWithRain h' = filter (rains impl bitmap h) [0..<i]
     \<and> (\<forall>j < length (Cities h). Cities h' ! j =
          (if j < i \<and> rains impl bitmap h j
           then paint (Cities h ! j) (the (sampled impl bitmap h j)) else Cities h ! j))"

definition colour_sum :: "City \<Rightarrow> nat" where
  "colour_sum c = unat (R c) + unat (G c) + unat (B c)"

text \<open>Every pointer of the published list points to a city whose colour is not black.\<close>

definition snapshot_ok :: "Handler \<Rightarrow> bool" where
  "snapshot_ok h \<longleftrightarrow>
     (\<forall>i \<in> set (CitiesWithRain h). i < length (Cities h) \<and> 0 < colour_sum (Cities h ! i))"

text \<open>A file the janitor deletes: an artifact by its name, old enough, with no failure in the way.\<close>

definition doomed :: "tick_env \<Rightarrow> (string \<Rightarrow> int option) \<Rightarrow> string \<Rightarrow> bool" where
  "doomed env fs name \<longleftrightarrow> HasPrefix name ''radar_a_mesta_'' \<and> \<not> Info_err env name
     \<and> \<not> Remove_err env name \<and> (case fs name of None \<Rightarrow> False | Some t \<Rightarrow> Hour \<le> now env - t)"

subsection \<open>Readers beside the loop\<close>

text \<open>
  The handler with the goroutines around it: one pass of the loop, from \<^verbatim>\<open>h.m.Lock()\<close> to
  the deferred \<^verbatim>\<open>Unlock\<close>, and any number of calls of \<^verbatim>\<open>HandleGet\<close>, interleaved
  statement by statement. The writer is before the lock, holds it, is in the loop at a
  position with its image, or has released it.
\<close>

datatype wstate = W_idle | W_locked | W_loop nat NRGBA_image | W_done

text \<open>
  A reader is before \<^verbatim>\<open>RLock\<close>, holds the read lock, encodes (the slice it has read, the
  number of elements written, the cities written so far), or has returned what it wrote.
\<close>

datatype rstate = R_idle | R_locked | R_encoding "nat list" nat "City list" | R_done "City list"

text \<open>
  \<^verbatim>\<open>sync.RWMutex\<close> is the flag \<open>m_locked\<close> of the handler and the count of readers inside.
  \<open>alive\<close> is false once \<^verbatim>\<open>log.Fatal\<close> has ended the process.
\<close>

record config =
  alive :: bool
  shared :: Handler
  readerCount :: nat
  ws :: wstate
  rs :: "nat \<Rightarrow> rstate"

text \<open>
  One step of one goroutine. \<^verbatim>\<open>Lock\<close> waits for the writer flag and the reader count to
  be clear, \<^verbatim>\<open>RLock\<close> for the writer flag. The loop body is \<open>classify\<close>; the encoder reads
  the slice, then one city through each pointer.
\<close>

inductive step :: "(f64 \<Rightarrow> 64 word) \<Rightarrow> NRGBA_image \<Rightarrow> config \<Rightarrow> config \<Rightarrow> bool"
  for impl :: "f64 \<Rightarrow> 64 word" and bitmap :: NRGBA_image where
  Lock: "alive c \<Longrightarrow> ws c = W_idle \<Longrightarrow> \<not> m_locked (shared c) \<Longrightarrow> readerCount c = 0 \<Longrightarrow>
      step impl bitmap c (c\<lparr>shared := (shared c)\<lparr>m_locked := True\<rparr>, ws := W_locked\<rparr>)"
| Reset: "alive c \<Longrightarrow> ws c = W_locked \<Longrightarrow>
      step impl bitmap c (c\<lparr>shared := (shared c)\<lparr>CitiesWithRain := []\<rparr>, ws := W_loop 0 bitmap\<rparr>)"
| Body: "alive c \<Longrightarrow> ws c = W_loop i b \<Longrightarrow> i < length (Cities (shared c)) \<Longrightarrow>
      classify impl (lonPixelSize bitmap) (latPixelSize bitmap) i (Result (b, shared c)) = Result (b', h') \<Longrightarrow>
      step impl bitmap c (c\<lparr>shared := h', ws := W_loop (Suc i) b'\<rparr>)"
| Fatal: "alive c \<Longrightarrow> ws c = W_loop i b \<Longrightarrow> i = length (Cities (shared c)) \<Longrightarrow>
      step impl bitmap c (c\<lparr>alive := False\<rparr>)"
| Unlock: "alive c \<Longrightarrow> ws c = W_loop i b \<Longrightarrow> i = length (Cities (shared c)) \<Longrightarrow>
      step impl bitmap c (c\<lparr>shared := (shared c)\<lparr>m_locked := False\<rparr>, ws := W_done\<rparr>)"
| RLock: "alive c \<Longrightarrow> rs c j = R_idle \<Longrightarrow> \<not> m_locked (shared c) \<Longrightarrow>
      step impl bitmap c (c\<lparr>readerCount := Suc (readerCount c), rs := (rs c)(j := R_locked)\<rparr>)"
| Header: "alive c \<Longrightarrow> rs c j = R_locked \<Longrightarrow>
      step impl bitmap c (c\<lparr>rs := (rs c)(j := R_encoding (CitiesWithRain (shared c)) 0 [])\<rparr>)"
| Element: "alive c \<Longrightarrow> rs c j = R_encoding ps k acc \<Longrightarrow> k < length ps \<Longrightarrow>
      step impl bitmap c
        (c\<lparr>rs := (rs c)(j := R_encoding ps (Suc k) (acc @ [Cities (shared c) ! (ps ! k)]))\<rparr>)"
| RUnlock: "alive c \<Longrightarrow> rs c j = R_encoding ps k acc \<Longrightarrow> k = length ps \<Longrightarrow>
      step impl bitmap c (c\<lparr>readerCount := readerCount c - 1, rs := (rs c)(j := R_done acc)\<rparr>)"

definition init :: "Handler \<Rightarrow> config" where
  "init h0 = \<lparr>alive = True, shared = h0, readerCount = 0, ws = W_idle, rs = (\<lambda>j. R_idle)\<rparr>"

fun in_cs :: "rstate \<Rightarrow> bool" where
  "in_cs R_locked = True"
| "in_cs (R_encoding ps k acc) = True"
| "in_cs _ = False"

text \<open>What a reader may return: the list as it was before the pass, or as the pass leaves it.\<close>

definition published :: "(f64 \<Rightarrow> 64 word) \<Rightarrow> NRGBA_image \<Rightarrow> Handler \<Rightarrow> City list \<Rightarrow> bool" where
  "published impl bitmap h0 obs \<longleftrightarrow>
     obs = HandleGet h0
     \<or> (\<exists>b h'. classify_all impl bitmap h0 = Result (b, h') \<and> obs = HandleGet h')"

text \<open>The invariant of the interleaving, for the writer, for one reader, and as a whole.\<close>

definition writer_ok :: "(f64 \<Rightarrow> 64 word) \<Rightarrow> NRGBA_image \<Rightarrow> Handler \<Rightarrow> config \<Rightarrow> bool" where
  "writer_ok impl bitmap h0 c \<longleftrightarrow>
     (case ws c of
        W_idle \<Rightarrow> shared c = h0
      | W_locked \<Rightarrow> shared c = h0\<lparr>m_locked := True\<rparr> \<and> readerCount c = 0
      | W_loop i b \<Rightarrow> i \<le> length (Cities h0) \<and> loop_at impl bitmap h0 i = Result (b, shared c)
                      \<and> readerCount c = 0
      | W_done \<Rightarrow> (\<exists>b h'. classify_all impl bitmap h0 = Result (b, h')
                      \<and> shared c = h'\<lparr>m_locked := False\<rparr>))"

definition reader_ok :: "(f64 \<Rightarrow> 64 word) \<Rightarrow> NRGBA_image \<Rightarrow> Handler \<Rightarrow> config \<Rightarrow> rstate \<Rightarrow> bool" where
  "reader_ok impl bitmap h0 c r =
     (case r of
        R_idle \<Rightarrow> True
      | R_locked \<Rightarrow> \<not> m_locked (shared c)
      | R_encoding ps k acc \<Rightarrow> \<not> m_locked (shared c) \<and> ps = CitiesWithRain (shared c)
          \<and> k \<le> length ps \<and> acc = map (\<lambda>p. Cities (shared c) ! p) (take k ps)
      | R_done obs \<Rightarrow> published impl bitmap h0 obs)"

definition conc_inv :: "(f64 \<Rightarrow> 64 word) \<Rightarrow> NRGBA_image \<Rightarrow> Handler \<Rightarrow> config \<Rightarrow> bool" where
  "conc_inv impl bitmap h0 c \<longleftrightarrow>
     finite {j. in_cs (rs c j)} \<and> readerCount c = card {j. in_cs (rs c j)}
     \<and> writer_ok impl bitmap h0 c \<and> (\<forall>j. reader_ok impl bitmap h0 c (rs c j))"

subsection \<open>float64 values of the projection\<close>

text \<open>The constants of the program as float64 values, each the nearest to its decimal.\<close>

definition lon0_f :: rat where "lon0_f = 3171475446285945 / 281474976710656"
definition lat0_f :: rat where "lat0_f = 7341862645910311 / 140737488355328"
definition lon1_f :: rat where "lon1_f = 2923162007670241 / 140737488355328"
definition lat1_f :: rat where "lat1_f = 6769473189891277 / 140737488355328"
definition dlon_f :: rat where "dlon_f = 2674848569054537 / 281474976710656"
definition dlat_f :: rat where "dlat_f = 286194728009517 / 70368744177664"

text \<open>
  The float64 next below the eastern bound and the one next above the southern bound, as
  the program reads these bounds, and the spans as the subtraction of the loop body rounds
  them: from the western edge to the first, from the northern edge to the decimal 48.1,
  and from the northern edge to the second.
\<close>

definition lonmax_f :: rat where "lonmax_f = 5846324015340481 / 281474976710656"
definition latmin_f :: rat where "latmin_f = 3384736594945639 / 70368744177664"
definition span_lon :: rat where "span_lon = 334356071131817 / 35184372088832"
definition span_lat :: rat where "span_lat = 2289557824076137 / 562949953421312"
definition span_lat_in :: rat where "span_lat_in = 572389456019033 / 140737488355328"

text \<open>
  The two quotients of the loop body, for a raster \<open>w\<close> pixels wide and \<open>h\<close> high, as far
  as every operation stays finite.
\<close>

definition qx :: "int \<Rightarrow> rat \<Rightarrow> rat" where
  "qx w lon = rnd (rnd (lon - lon0_f) / rnd (dlon_f / of_int w))"

definition qy :: "int \<Rightarrow> rat \<Rightarrow> rat" where
  "qy h lat = rnd (rnd (lat0_f - lat) / rnd (dlat_f / of_int h))"

text \<open>The projection as the specification words it: exact arithmetic and \<open>floor\<close>.\<close>

definition project_spec :: "int \<Rightarrow> int \<Rightarrow> rat \<Rightarrow> rat \<Rightarrow> int \<times> int" where
  "project_spec w h lat lon =
     (\<lfloor>(lon - lon0) / ((lon1 - lon0) / of_int w)\<rfloor>, \<lfloor>(lat0 - lat) / ((lat0 - lat1) / of_int h)\<rfloor>)"

text \<open>Rasters of 500 by 500 and of 728 by 528 pixels, black.\<close>

definition raster500 :: NRGBA_image where
  "raster500 = Clone \<lparr>width = 500, height = 500, pixel = (\<lambda>x y. NRGBA 0 0 0 255)\<rparr>"

definition raster728 :: NRGBA_image where
  "raster728 = Clone \<lparr>width = 728, height = 528, pixel = (\<lambda>x y. NRGBA 0 0 0 255)\<rparr>"

text \<open>Prague, 50.0877 N 14.4213 E, as float64 values.\<close>

definition prague_lat :: rat where "prague_lat = 3524608547747581 / 70368744177664"
definition prague_lon :: rat where "prague_lon = 8118470163274767 / 562949953421312"

text \<open>Hradec Kralove, 50.2104 N 15.8252 E, as float64 values.\<close>

definition hradec_lat :: rat where "hradec_lat = 7066485585316361 / 140737488355328"
definition hradec_lon :: rat where "hradec_lon = 8908795602882947 / 562949953421312"

subsection \<open>Concrete inputs\<close>

text \<open>A 9 by 9 image of one opaque colour, red 128, green 128, blue 0.\<close>

definition olive :: decoded where
  "olive = \<lparr>width = 9, height = 9, pixel = (\<lambda>x y. NRGBA 128 128 0 255)\<rparr>"

text \<open>
  One city, Hradec Kralove, and the answers of the outside on 1 January 2024 at 12:07 UTC:
  an empty directory, a download that succeeds and decodes to the olive image.
\<close>

definition hradec :: "int \<times> string \<times> f64 \<times> f64" where
  "hradec = (1, ''Hradec Kralove'', Fin hradec_lat, Fin hradec_lon)"

definition world0 :: world where
  "world0 = start Map.empty [hradec]"

definition env_ok :: tick_env where
  "env_ok = \<lparr>now = 1704110820000000000, formattedDate = ''20240101.1207'', os_ReadDir = [],
     Info_err = (\<lambda>_. False), Remove_err = (\<lambda>_. False), Stat_err = False,
     http_Get = (\<lambda>_. (Some \<lparr>StatusCode = 200, Body = []\<rparr>, False)),
     imaging_Decode = (\<lambda>_. Some olive), Create_err = False, Encode_err = False,
     f2i = (\<lambda>_. 0)\<rparr>"

text \<open>The same minute with the image not yet on the server (HTTP 404).\<close>

definition env_404 :: tick_env where
  "env_404 = env_ok\<lparr>http_Get := (\<lambda>_. (Some \<lparr>StatusCode = 404, Body = []\<rparr>, False))\<rparr>"

text \<open>The same minute with the network down: \<^verbatim>\<open>http.Get\<close> answers no response and an error.\<close>

definition env_neterr :: tick_env where
  "env_neterr = env_ok\<lparr>http_Get := (\<lambda>_. (None, True))\<rparr>"

text \<open>The same minute with a directory that cannot be written.\<close>

definition env_nocreate :: tick_env where
  "env_nocreate = env_ok\<lparr>Create_err := True\<rparr>"

text \<open>One minute later, in the same ten minutes.\<close>

definition env_next :: tick_env where
  "env_next = env_ok\<lparr>now := 1704110880000000000, formattedDate := ''20240101.1208''\<rparr>"

text \<open>The same minute with a directory listing.\<close>

definition env_listing :: "string list \<Rightarrow> tick_env" where
  "env_listing names = env_ok\<lparr>os_ReadDir := names\<rparr>"

text \<open>A directory with one artifact written at 11:07, and one with artifacts of 11:37 and 10:37.\<close>

definition old_file :: "string \<Rightarrow> int option" where
  "old_file = [''radar_a_mesta_20240101.1100.png'' \<mapsto> 1704107220000000000]"

definition two_files :: "string \<Rightarrow> int option" where
  "two_files = [''radar_a_mesta_20240101.1130.png'' \<mapsto> 1704109020000000000,
                ''radar_a_mesta_20240101.1030.png'' \<mapsto> 1704105420000000000]"

text \<open>
  A 9 by 9 image of opaque blue, Hradec Kralove as the loop leaves it on that image, and
  the state after a reader, the loop on the blue image, and a second reader have run.
\<close>

definition blue :: decoded where
  "blue = \<lparr>width = 9, height = 9, pixel = (\<lambda>x y. NRGBA 0 0 255 255)\<rparr>"

definition hradec_blue :: City where
  "hradec_blue = \<lparr>ID = 1, Name = ''Hradec Kralove'', Lat = Fin hradec_lat, Lon = Fin hradec_lon,
     R = 0, G = 0, B = 255\<rparr>"

definition after_blue :: config where
  "after_blue = \<lparr>alive = True,
     shared = \<lparr>m_locked = False, Cities = [hradec_blue], CitiesWithRain = [0]\<rparr>,
     readerCount = 0, ws = W_done,
     rs = (\<lambda>j. R_idle)(0 := R_done [], 1 := R_done [hradec_blue])\<rparr>"

text \<open>
  The minute of \<open>env_ok\<close> with a download that decodes to the blue image, and the state
  that pass leaves: the image of 12:00 written, Hradec Kralove published in blue.
\<close>

definition env_blue :: tick_env where
  "env_blue = env_ok\<lparr>imaging_Decode := (\<lambda>_. Some blue)\<rparr>"

definition world_blue :: world where
  "world_blue = \<lparr>files = [artifact ''20240101.1200'' \<mapsto> 1704110820000000000],
     handler = \<lparr>m_locked = False, Cities = [hradec_blue], CitiesWithRain = [0]\<rparr>, gets = 1\<rparr>"

text \<open>
  Ten minutes later, at 12:17: once with a download that decodes to a black 9 by 9
  image, once with the image of 12:10 not yet on the server.
\<close>

definition black :: decoded where
  "black = \<lparr>width = 9, height = 9, pixel = (\<lambda>x y. NRGBA 0 0 0 255)\<rparr>"

definition env_dry :: tick_env where
  "env_dry = env_ok\<lparr>now := 1704111420000000000, formattedDate := ''20240101.1217'',
     imaging_Decode := (\<lambda>_. Some black)\<rparr>"

definition env_late_404 :: tick_env where
  "env_late_404 = env_404\<lparr>now := 1704111420000000000, formattedDate := ''20240101.1217''\<rparr>"

text \<open>
  A directory that holds the image of 12:00 with a modification time of 11:06, 61
  minutes before the clock of \<open>env_ok\<close>, and the pass of \<open>env_ok\<close> that lists it.
\<close>

definition world_aged :: world where
  "world_aged = start [artifact ''20240101.1200'' \<mapsto> 1704107160000000000] [hradec]"

definition env_aged :: tick_env where
  "env_aged = env_listing [artifact ''20240101.1200'']"

section \<open>Rounding to float64\<close>

lemma pow2_powi: "pow2 e = power_int 2 e"
  by (simp add: pow2_def power_int_def inverse_eq_divide power_one_over)

lemma pow2_pos: "0 < pow2 e"
  by (simp add: pow2_powi)

lemma pow2_add: "pow2 (a + b) = pow2 a * pow2 b"
  by (simp add: pow2_powi power_int_add)

lemma pow2_diff: "pow2 (a - b) = pow2 a / pow2 b"
  by (simp add: pow2_powi power_int_diff)

lemma pow2_mono: "a \<le> b \<Longrightarrow> pow2 a \<le> pow2 b"
  by (simp add: pow2_powi power_int_increasing)

lemma pow2_strict_mono: "a < b \<Longrightarrow> pow2 a < pow2 b"
  by (simp add: pow2_powi power_int_strict_increasing)

lemma pow2_less_cancel: "pow2 a < pow2 b \<Longrightarrow> a < b"
  using pow2_mono [of b a] by (cases "a < b") auto

lemma pow2_nat: "0 \<le> e \<Longrightarrow> pow2 e = of_int (2 ^ nat e)"
  by (simp add: pow2_def)

lemma ilog2_bounds:
  assumes "0 < q"
  shows "pow2 (ilog2 q) \<le> q \<and> q < pow2 (ilog2 q + 1)"
proof -
  obtain a b where ab: "quotient_of q = (a, b)"
    by (cases "quotient_of q")
  have b: "0 < b"
    using ab by (rule quotient_of_denom_pos)
  have q: "q = of_int a / of_int b"
    using ab by (rule quotient_of_div)
  have a: "0 < a"
    using assms b q by (simp add: zero_less_divide_iff)
  define k where "k = bitlen a - bitlen b"
  have la: "1 \<le> bitlen a" and lb: "1 \<le> bitlen b"
    using a b bitlen_eq_zero_iff [of a] bitlen_eq_zero_iff [of b] bitlen_nonneg [of a] bitlen_nonneg [of b]
    by linarith+
  have a_lo: "pow2 (bitlen a - 1) \<le> of_int a"
    using of_int_le_iff [where ?'a = rat, THEN iffD2, OF conjunct1 [OF bitlen_bounds [OF a]]] la
    by (simp only: pow2_nat)
  have a_hi: "of_int a < pow2 (bitlen a)"
    using of_int_less_iff [where ?'a = rat, THEN iffD2, OF conjunct2 [OF bitlen_bounds [OF a]]] la
    by (simp only: pow2_nat)
  have b_lo: "pow2 (bitlen b - 1) \<le> of_int b"
    using of_int_le_iff [where ?'a = rat, THEN iffD2, OF conjunct1 [OF bitlen_bounds [OF b]]] lb
    by (simp only: pow2_nat)
  have b_hi: "of_int b < pow2 (bitlen b)"
    using of_int_less_iff [where ?'a = rat, THEN iffD2, OF conjunct2 [OF bitlen_bounds [OF b]]] lb
    by (simp only: pow2_nat)
  have bq: "0 < (of_int b :: rat)"
    using b by simp
  have "q * of_int b < pow2 (bitlen a)"
    using a_hi q bq by simp
  also have "\<dots> = pow2 (k + 1) * pow2 (bitlen b - 1)"
    by (simp add: k_def flip: pow2_add)
  also have "\<dots> \<le> pow2 (k + 1) * of_int b"
    using b_lo pow2_pos [of "k + 1"] by simp
  finally have hi: "q < pow2 (k + 1)"
    using bq by simp
  have "pow2 (k - 1) * of_int b < pow2 (k - 1) * pow2 (bitlen b)"
    using b_hi pow2_pos [of "k - 1"] by simp
  also have "\<dots> = pow2 (bitlen a - 1)"
    by (simp add: k_def flip: pow2_add)
  also have "\<dots> \<le> q * of_int b"
    using a_lo q bq by simp
  finally have lo: "pow2 (k - 1) < q"
    using bq by simp
  show ?thesis
    using hi lo by (simp add: ilog2_def ab k_def [symmetric] Let_def not_le less_imp_le)
qed

lemma ilog2_unique:
  assumes "pow2 e \<le> q" and "q < pow2 (e + 1)"
  shows "ilog2 q = e"
proof -
  have q: "0 < q"
    using assms(1) pow2_pos [of e] by linarith
  have "pow2 (ilog2 q) < pow2 (e + 1)" and "pow2 e < pow2 (ilog2 q + 1)"
    using ilog2_bounds [OF q] assms by linarith+
  then have "ilog2 q < e + 1" and "e < ilog2 q + 1"
    by (auto dest: pow2_less_cancel)
  then show ?thesis by linarith
qed

lemma ilog2_mono:
  assumes "0 < q" and "q \<le> q'"
  shows "ilog2 q \<le> ilog2 q'"
proof -
  have "pow2 (ilog2 q) < pow2 (ilog2 q' + 1)"
    using ilog2_bounds [OF assms(1)] ilog2_bounds [of q'] assms by linarith
  then show ?thesis
    using pow2_less_cancel by fastforce
qed


lemma rhe_cases: "round_half_even q = \<lfloor>q\<rfloor> \<or> round_half_even q = \<lfloor>q\<rfloor> + 1"
  by (simp add: round_half_even_def Let_def)

lemma rhe_err: "\<bar>of_int (round_half_even q) - q\<bar> \<le> 1 / 2"
  unfolding round_half_even_def Let_def
  using floor_correct [of q] by (auto simp: abs_le_iff)

lemma rhe_unique:
  assumes "\<bar>q - of_int n\<bar> < 1 / 2"
  shows "round_half_even q = n"
proof -
  have "\<bar>(of_int (round_half_even q) :: rat) - of_int n\<bar> < 1"
    using rhe_err [of q] assms by linarith
  then have "\<bar>(of_int (round_half_even q - n) :: rat)\<bar> < 1"
    by simp
  then have "\<bar>round_half_even q - n\<bar> < 1"
    by (metis of_int_abs of_int_less_1_iff)
  then show ?thesis by linarith
qed

lemma rhe_of_int: "round_half_even (of_int n) = n"
  by (rule rhe_unique) simp

lemma rhe_mono:
  assumes "q \<le> q'"
  shows "round_half_even q \<le> round_half_even q'"
proof (cases "\<lfloor>q\<rfloor> = \<lfloor>q'\<rfloor>")
  case True
  then show ?thesis
    using assms by (auto simp: round_half_even_def Let_def)
next
  case False
  then have "\<lfloor>q\<rfloor> + 1 \<le> \<lfloor>q'\<rfloor>"
    using floor_mono [OF assms] by linarith
  then show ?thesis
    using rhe_cases [of q] rhe_cases [of q'] by linarith
qed

lemma rhe_nonneg: "0 \<le> q \<Longrightarrow> 0 \<le> round_half_even q"
  using rhe_mono [of 0 q] rhe_of_int [of 0] by simp

lemma rnd_zero: "rnd 0 = 0"
  using rhe_of_int [of 0] by (simp add: rnd_def)

lemma rnd_nonneg: "0 \<le> q \<Longrightarrow> 0 \<le> rnd q"
  unfolding rnd_def using pow2_pos [of "f64_exp q"] rhe_nonneg [of "q / pow2 (f64_exp q)"]
  by simp

lemma rnd_err: "\<bar>rnd q - q\<bar> \<le> pow2 (f64_exp q) / 2"
proof -
  define p where "p = pow2 (f64_exp q)"
  have p: "0 < p" by (simp add: p_def pow2_pos)
  have "rnd q - q = (of_int (round_half_even (q / p)) - q / p) * p"
    using p by (simp add: rnd_def p_def [symmetric] left_diff_distrib)
  then have "\<bar>rnd q - q\<bar> = \<bar>of_int (round_half_even (q / p)) - q / p\<bar> * p"
    using p by (simp add: abs_mult)
  also have "\<dots> \<le> (1 / 2) * p"
    using rhe_err [of "q / p"] p by (intro mult_right_mono) simp_all
  finally show ?thesis by (simp add: p_def)
qed

lemma f64_round_Fin:
  assumes "- (2 ^ 1024) < rnd q" and "rnd q < 2 ^ 1024"
  shows "f64_round q = Fin (rnd q)"
  using assms by (simp add: f64_round_def Let_def rnd_zero not_le)

lemma f64_exp_eq:
  assumes "pow2 e \<le> \<bar>q\<bar>" and "\<bar>q\<bar> < pow2 (e + 1)"
  shows "f64_exp q = max (e - 52) (- 1074)"
  using ilog2_unique [OF assms] by (simp add: f64_exp_def)

lemma rnd_cert:
  assumes "pow2 e \<le> \<bar>q\<bar>" and "\<bar>q\<bar> < pow2 (e + 1)" and "p = max (e - 52) (- 1074)"
    and "\<bar>q / pow2 p - of_int n\<bar> < 1 / 2"
  shows "rnd q = of_int n * pow2 p"
  using f64_exp_eq [OF assms(1,2)] rhe_unique [OF assms(4)] assms(3) by (simp add: rnd_def)

lemma rnd_exact:
  assumes "\<bar>n\<bar> < 2 ^ 53" and "- 1074 \<le> p"
  shows "rnd (of_int n * pow2 p) = of_int n * pow2 p"
proof (cases "n = 0")
  case True
  then show ?thesis by (simp add: rnd_zero)
next
  case False
  define q :: rat where "q = of_int n * pow2 p"
  have q: "0 < \<bar>q\<bar>"
    using False pow2_pos [of p] by (simp add: q_def)
  have "\<bar>q\<bar> = of_int \<bar>n\<bar> * pow2 p"
    using pow2_pos [of p] by (simp add: q_def abs_mult)
  also have "\<dots> < of_int (2 ^ 53) * pow2 p"
    using assms(1) pow2_pos [of p] by (intro mult_strict_right_mono) (simp_all only: of_int_less_iff)
  also have "\<dots> = pow2 (53 + p)"
    unfolding pow2_add by (simp add: pow2_def)
  finally have "pow2 (ilog2 \<bar>q\<bar>) < pow2 (53 + p)"
    using ilog2_bounds [OF q] by linarith
  then have "ilog2 \<bar>q\<bar> < 53 + p"
    by (rule pow2_less_cancel)
  then have le: "f64_exp q \<le> p"
    using assms(2) by (simp add: f64_exp_def)
  define k where "k = nat (p - f64_exp q)"
  define g where "g = pow2 (f64_exp q)"
  have g: "0 < g"
    by (simp add: g_def pow2_pos)
  have "pow2 p = g * pow2 (int k)"
    using le by (simp add: k_def g_def flip: pow2_add)
  then have pk: "pow2 p = g * of_int (2 ^ k)"
    by (simp add: pow2_def)
  have qg: "q = of_int (n * 2 ^ k) * g"
    unfolding q_def pk by simp
  have "q / g = of_int (n * 2 ^ k)"
    unfolding qg using g by simp
  then have "round_half_even (q / g) = n * 2 ^ k"
    by (simp only: rhe_of_int)
  then have "rnd q = of_int (n * 2 ^ k) * g"
    by (simp add: rnd_def g_def)
  also have "\<dots> = q"
    by (simp only: qg)
  finally show ?thesis by (simp add: q_def)
qed


lemma rnd_le_pow2:
  assumes "0 < q"
  shows "rnd q \<le> pow2 (ilog2 q + 1)"
proof -
  define e where "e = ilog2 q"
  define p where "p = f64_exp q"
  have g: "0 < pow2 p" by (rule pow2_pos)
  have hi: "q < pow2 (e + 1)"
    using ilog2_bounds [OF assms] by (simp add: e_def)
  have qg: "q / pow2 p < pow2 (e + 1 - p)"
    using hi g by (simp add: pow2_diff divide_strict_right_mono)
  show ?thesis
  proof (cases "p \<le> e + 1")
    case True
    then have "pow2 (e + 1 - p) = of_int (2 ^ nat (e + 1 - p))"
      by (simp add: pow2_def)
    then have "round_half_even (q / pow2 p) \<le> 2 ^ nat (e + 1 - p)"
      using rhe_mono [of "q / pow2 p" "pow2 (e + 1 - p)"] qg by (simp only: rhe_of_int)
    then have "(of_int (round_half_even (q / pow2 p)) :: rat) \<le> of_int (2 ^ nat (e + 1 - p))"
      by (simp only: of_int_le_iff)
    then have "rnd q \<le> of_int (2 ^ nat (e + 1 - p)) * pow2 p"
      unfolding rnd_def p_def [symmetric] using g by (intro mult_right_mono) simp_all
    also have "\<dots> = pow2 (e + 1 - p) * pow2 p"
      using True by (simp add: pow2_def)
    also have "\<dots> = pow2 (e + 1)"
      by (simp flip: pow2_add)
    finally show ?thesis by (simp add: e_def)
  next
    case False
    then have "pow2 (e + 1 - p) \<le> pow2 (- 1)"
      by (intro pow2_mono) simp
    moreover have "pow2 (- 1) = 1 / 2"
      by (simp add: pow2_def)
    ultimately have "q / pow2 p < 1 / 2"
      using qg by linarith
    moreover have "0 \<le> q / pow2 p"
      using assms g by simp
    ultimately have "round_half_even (q / pow2 p) = 0"
      by (intro rhe_unique) simp
    then have "rnd q = 0"
      by (simp add: rnd_def p_def)
    then show ?thesis
      using pow2_pos [of "ilog2 q + 1"] by simp
  qed
qed

lemma rnd_ge_pow2:
  assumes "0 < q" and "f64_exp q = ilog2 q - 52"
  shows "pow2 (ilog2 q) \<le> rnd q"
proof -
  define e where "e = ilog2 q"
  have g: "0 < pow2 (e - 52)" by (rule pow2_pos)
  have "pow2 52 = pow2 e / pow2 (e - 52)"
    by (simp flip: pow2_diff)
  also have "\<dots> \<le> q / pow2 (e - 52)"
    using ilog2_bounds [OF assms(1)] g by (simp add: e_def divide_right_mono)
  finally have "of_int (2 ^ 52) \<le> q / pow2 (e - 52)"
    by (simp add: pow2_def)
  then have "2 ^ 52 \<le> round_half_even (q / pow2 (e - 52))"
    using rhe_mono [of "of_int (2 ^ 52)" "q / pow2 (e - 52)"] by (simp only: rhe_of_int)
  then have "(of_int (2 ^ 52) :: rat) \<le> of_int (round_half_even (q / pow2 (e - 52)))"
    by (simp only: of_int_le_iff)
  then have "of_int (2 ^ 52) * pow2 (e - 52) \<le> rnd q"
    unfolding rnd_def assms(2) e_def [symmetric] using g by (intro mult_right_mono) simp_all
  then have "pow2 52 * pow2 (e - 52) \<le> rnd q"
    by (simp add: pow2_def [of 52])
  then show ?thesis
    by (simp add: e_def flip: pow2_add)
qed

lemma rnd_mono:
  assumes "0 < q" and "q \<le> q'"
  shows "rnd q \<le> rnd q'"
proof -
  have q': "0 < q'" using assms by linarith
  have e: "ilog2 q \<le> ilog2 q'"
    using assms by (rule ilog2_mono)
  then have p: "f64_exp q \<le> f64_exp q'"
    using assms q' by (simp add: f64_exp_def)
  show ?thesis
  proof (cases "f64_exp q = f64_exp q'")
    case True
    have "q / pow2 (f64_exp q) \<le> q' / pow2 (f64_exp q)"
      using assms(2) pow2_pos [of "f64_exp q"] by (simp add: divide_right_mono)
    then have "(of_int (round_half_even (q / pow2 (f64_exp q))) :: rat)
        \<le> of_int (round_half_even (q' / pow2 (f64_exp q)))"
      by (simp only: of_int_le_iff rhe_mono)
    then show ?thesis
      unfolding rnd_def True [symmetric] using pow2_pos [of "f64_exp q"]
      by (intro mult_right_mono) simp_all
  next
    case False
    with p have lt: "f64_exp q < f64_exp q'" by simp
    then have e': "f64_exp q' = ilog2 q' - 52" and "ilog2 q + 1 \<le> ilog2 q'"
      using assms q' by (simp_all add: f64_exp_def max_def split: if_splits)
    then have "pow2 (ilog2 q + 1) \<le> pow2 (ilog2 q')"
      by (intro pow2_mono)
    then show ?thesis
      using rnd_le_pow2 [OF assms(1)] rnd_ge_pow2 [OF q' e'] by linarith
  qed
qed

lemma rnd_mono0:
  assumes "0 \<le> q" and "q \<le> q'"
  shows "rnd q \<le> rnd q'"
proof (cases "q = 0")
  case True
  then show ?thesis using rnd_nonneg [of q'] assms by (simp add: rnd_zero)
next
  case False
  then show ?thesis using assms by (intro rnd_mono) simp_all
qed

lemma f64_exp_normal:
  assumes "pow2 (- 1022) \<le> q"
  shows "f64_exp q = ilog2 q - 52"
proof -
  have "ilog2 (pow2 (- 1022)) = - 1022"
    by (rule ilog2_unique) (simp_all add: pow2_strict_mono)
  then have "- 1022 \<le> ilog2 q"
    using ilog2_mono [OF pow2_pos assms] by simp
  moreover have "0 < q"
    using assms pow2_pos [of "- 1022"] by linarith
  ultimately show ?thesis by (simp add: f64_exp_def)
qed

lemma rnd_rel:
  assumes "pow2 (- 1022) \<le> q"
  shows "\<bar>rnd q - q\<bar> \<le> q / 2 ^ 53"
proof -
  have q: "0 < q"
    using assms pow2_pos [of "- 1022"] by linarith
  have "pow2 (f64_exp q) / 2 = pow2 (ilog2 q - 52) * pow2 (- 1)"
    by (simp add: f64_exp_normal [OF assms] pow2_def [of "- 1"])
  also have "\<dots> = pow2 (ilog2 q) * pow2 (- 53)"
    by (simp flip: pow2_add)
  also have "\<dots> \<le> q * pow2 (- 53)"
    using ilog2_bounds [OF q] pow2_pos [of "- 53"] by (intro mult_right_mono) simp_all
  also have "\<dots> = q / 2 ^ 53"
    by (simp add: pow2_def)
  finally show ?thesis
    using rnd_err [of q] by linarith
qed

lemma is_f64_rnd: "is_f64 q \<Longrightarrow> rnd q = q"
  by (auto simp: is_f64_def f64_round_def Let_def rnd_zero split: if_splits)

lemma is_f64_grid:
  assumes "is_f64 q" and "pow2 e \<le> q" and "q < pow2 (e + 1)" and "- 1022 \<le> e"
  shows "\<exists>n. q = of_int n * pow2 (e - 52)"
proof -
  have "0 < q"
    using assms(2) pow2_pos [of e] by linarith
  then have "f64_exp q = e - 52"
    using f64_exp_eq [of e q] assms by simp
  then have "rnd q = of_int (round_half_even (q / pow2 (e - 52))) * pow2 (e - 52)"
    by (simp add: rnd_def)
  then show ?thesis
    using is_f64_rnd [OF assms(1)] by metis
qed

lemma f64_round_cert:
  assumes "pow2 e \<le> \<bar>q\<bar>" and "\<bar>q\<bar> < pow2 (e + 1)" and "p = max (e - 52) (- 1074)"
    and "\<bar>q / pow2 p - of_int n\<bar> < 1 / 2" and "r = of_int n * pow2 p"
    and "- (2 ^ 1024) < r" and "r < 2 ^ 1024"
  shows "f64_round q = Fin r"
  using rnd_cert [OF assms(1-4)] f64_round_Fin [of q] assms(5-7) by simp

section \<open>The arithmetic of the projection\<close>

lemma f64_sub_cert:
  assumes "pow2 e \<le> \<bar>a - b\<bar>" and "\<bar>a - b\<bar> < pow2 (e + 1)" and "p = max (e - 52) (- 1074)"
    and "\<bar>(a - b) / pow2 p - of_int n\<bar> < 1 / 2" and "r = of_int n * pow2 p"
    and "- (2 ^ 1024) < r" and "r < 2 ^ 1024"
  shows "f64_sub (Fin a) (Fin b) = Fin r"
  using f64_round_cert [OF assms] by simp

lemma f64_div_cert:
  assumes "pow2 e \<le> \<bar>a / b\<bar>" and "\<bar>a / b\<bar> < pow2 (e + 1)" and "p = max (e - 52) (- 1074)"
    and "\<bar>a / b / pow2 p - of_int n\<bar> < 1 / 2" and "r = of_int n * pow2 p"
    and "- (2 ^ 1024) < r" and "r < 2 ^ 1024"
  shows "f64_div (Fin a) (Fin b) = Fin r"
proof -
  have "b \<noteq> 0"
    using assms(1) pow2_pos [of e] by auto
  then show ?thesis
    using f64_round_cert [OF assms] by simp
qed

lemma fl_lon0: "f64_round lon0 = Fin lon0_f"
  unfolding lon0_f_def
  by (rule f64_round_cert [where e = 3 and n = 6342950892571890 and p = "-49"]) (simp_all add: lon0_def pow2_def)

lemma fl_lat0: "f64_round lat0 = Fin lat0_f"
  unfolding lat0_f_def
  by (rule f64_round_cert [where e = 5 and n = 7341862645910311 and p = "-47"]) (simp_all add: lat0_def pow2_def)

lemma fl_dlon: "f64_round (lon1 - lon0) = Fin dlon_f"
  unfolding dlon_f_def
  by (rule f64_round_cert [where e = 3 and n = 5349697138109074 and p = "-49"]) (simp_all add: lon0_def lon1_def pow2_def)

lemma fl_dlat: "f64_round (lat0 - lat1) = Fin dlat_f"
  unfolding dlat_f_def
  by (rule f64_round_cert [where e = 2 and n = 4579115648152272 and p = "-50"]) (simp_all add: lat0_def lat1_def pow2_def)

lemma rnd_rel_bounds:
  assumes "pow2 (- 1022) \<le> q"
  shows "q * (1 - 1 / 2 ^ 53) \<le> rnd q" and "rnd q \<le> q * (1 + 1 / 2 ^ 53)"
proof -
  define d where "d = q / 2 ^ 53"
  have eq: "q * (1 - 1 / 2 ^ 53) = q - d" "q * (1 + 1 / 2 ^ 53) = q + d"
    by (simp_all add: d_def algebra_simps)
  have "\<bar>rnd q - q\<bar> \<le> d"
    using rnd_rel [OF assms] by (simp only: d_def)
  then have "q - d \<le> rnd q" and "rnd q \<le> q + d"
    by (simp_all add: abs_le_iff algebra_simps)
  then show "q * (1 - 1 / 2 ^ 53) \<le> rnd q" and "rnd q \<le> q * (1 + 1 / 2 ^ 53)"
    by (simp_all only: eq)
qed

lemma pow2_tiny: "pow2 (- 1022) \<le> 1 / 2 ^ 40"
proof -
  have "pow2 (- 1022) \<le> pow2 (- 40)"
    by (rule pow2_mono) simp
  then show ?thesis
    by (simp add: pow2_def [of "- 40"])
qed

lemma normal_ge: "1 / 2 ^ 40 \<le> q \<Longrightarrow> pow2 (- 1022) \<le> q"
  using pow2_tiny by linarith

lemma f64_round_small:
  assumes "0 \<le> q" and "q \<le> 2 ^ 40"
  shows "f64_round q = Fin (rnd q)" and "0 \<le> rnd q" and "rnd q \<le> 2 ^ 40"
proof -
  have "rnd q \<le> rnd (of_int (2 ^ 40) * pow2 0)"
    using assms by (intro rnd_mono0) (simp_all add: pow2_def)
  also have "\<dots> = of_int (2 ^ 40) * pow2 0"
    by (rule rnd_exact) simp_all
  finally show hi: "rnd q \<le> 2 ^ 40"
    by (simp add: pow2_def)
  show lo: "0 \<le> rnd q"
    using assms(1) by (rule rnd_nonneg)
  have "(2::rat) ^ 40 < 2 ^ 1024"
    by simp
  then show "f64_round q = Fin (rnd q)"
    using lo hi by (intro f64_round_Fin) linarith+
qed

lemma f64_of_int_exact:
  assumes "0 < w" and "w \<le> 2 ^ 31"
  shows "f64_of_int w = Fin (of_int w)"
proof -
  have "rnd (of_int w * pow2 0) = of_int w * pow2 0"
    using assms by (intro rnd_exact) simp_all
  then have r: "rnd (of_int w) = of_int w"
    by (simp add: pow2_def)
  have "(of_int w :: rat) \<le> of_int (2 ^ 31)"
    using assms(2) by (simp only: of_int_le_iff)
  then have "(of_int w :: rat) \<le> 2 ^ 40"
    by simp
  moreover have "(0 :: rat) \<le> of_int w"
    using assms(1) by simp
  ultimately show ?thesis
    using f64_round_small(1) [of "of_int w"] by (simp add: f64_of_int_def r)
qed

text \<open>The size of a pixel, for a raster of \<open>w\<close> pixels across a span of \<open>D\<close> degrees.\<close>

lemma pixel_size:
  assumes "0 < w" and "w \<le> 2 ^ 31" and "4 \<le> D" and "D \<le> 16"
  shows "f64_div (Fin D) (f64_of_int w) = Fin (rnd (D / of_int w))"
    and "D / of_int w * (1 - 1 / 2 ^ 53) \<le> rnd (D / of_int w)"
    and "0 < rnd (D / of_int w)"
proof -
  define q where "q = D / of_int w"
  have w: "(0 :: rat) < of_int w" "(of_int w :: rat) \<le> 2 ^ 31"
    using assms(1) of_int_le_iff [where ?'a = rat, THEN iffD2, OF assms(2)] by simp_all
  have "(1 :: rat) / 2 ^ 40 \<le> 4 / 2 ^ 31"
    by simp
  also have "\<dots> \<le> D / of_int w"
    using w assms(3) by (intro frac_le) simp_all
  finally have lo: "1 / 2 ^ 40 \<le> q"
    unfolding q_def .
  have "D / of_int w \<le> 16 / 1"
    using w assms(1,3,4) by (intro frac_le) simp_all
  also have "\<dots> \<le> (2 :: rat) ^ 40"
    by simp
  finally have hi: "q \<le> 2 ^ 40"
    unfolding q_def .
  have q: "0 < q"
    using lo by (simp add: less_le_trans [of 0 "1 / 2 ^ 40"])
  show rel: "D / of_int w * (1 - 1 / 2 ^ 53) \<le> rnd (D / of_int w)"
    using rnd_rel_bounds(1) [OF normal_ge [OF lo]] by (simp add: q_def)
  have "0 < q * (1 - 1 / 2 ^ 53)"
    using q by simp
  then show "0 < rnd (D / of_int w)"
    using rel by (simp add: q_def)
  have "of_int w \<noteq> (0 :: rat)"
    using w by simp
  then show "f64_div (Fin D) (f64_of_int w) = Fin (rnd (D / of_int w))"
    using f64_round_small(1) [of q] q hi
    by (simp add: f64_of_int_exact [OF assms(1,2)] q_def)
qed

text \<open>
  The quotient of a span \<open>a \<le> A\<close> by the pixel size: at most \<open>w\<close> times a factor that the
  three roundings put near 1.
\<close>

lemma quotient_bound:
  assumes a: "0 \<le> a" "a \<le> A" and A: "1 \<le> A" "A \<le> 16" and D: "4 \<le> D" "D \<le> 16"
    and w: "0 < w" "w \<le> 2 ^ 31"
  shows "f64_div (Fin a) (Fin (rnd (D / of_int w))) = Fin (rnd (a / rnd (D / of_int w)))"
    and "0 \<le> rnd (a / rnd (D / of_int w))"
    and "rnd (a / rnd (D / of_int w)) \<le> A * (1 + 1 / 2 ^ 53) / (D * (1 - 1 / 2 ^ 53)) * of_int w"
proof -
  define px where "px = rnd (D / of_int w)"
  define lo where "lo = D / of_int w * (1 - 1 / 2 ^ 53)"
  define v where "v = A / lo"
  have wr: "(0 :: rat) < of_int w" "(1 :: rat) \<le> of_int w" "(of_int w :: rat) \<le> 2 ^ 31"
    using w(1) of_int_le_iff [where ?'a = rat, THEN iffD2, OF w(2)] by simp_all
  have px: "lo \<le> px" "0 < px"
    using pixel_size(2,3) [OF w D] by (simp_all add: px_def lo_def)
  have lo: "0 < lo"
    using wr D by (simp add: lo_def)
  have "a / px \<le> A / px"
    using a px by (simp add: divide_right_mono)
  also have "\<dots> \<le> A / lo"
    using A px lo by (intro divide_left_mono) simp_all
  finally have av: "a / px \<le> v"
    by (simp add: v_def)
  have nn: "0 \<le> a / px"
    using a px by simp
  have v_eq: "v = A / (D * (1 - 1 / 2 ^ 53)) * of_int w"
    using wr by (simp add: v_def lo_def)
  define k where "k = A / (D * (1 - 1 / 2 ^ 53))"
  have k: "1 / 16 \<le> k" "k \<le> 16 / (4 * (1 - 1 / 2 ^ 53))"
    using A D unfolding k_def by (intro frac_le; simp)+
  have "(1 :: rat) / 2 ^ 40 \<le> 1 / 16 * 1"
    by simp
  also have "\<dots> \<le> k * of_int w"
    using wr k by (intro mult_mono) simp_all
  finally have v_lo: "1 / 2 ^ 40 \<le> v"
    by (simp only: v_eq k_def)
  have "k * of_int w \<le> 16 / (4 * (1 - 1 / 2 ^ 53)) * 2 ^ 31"
    using wr k by (intro mult_mono) simp_all
  also have "\<dots> \<le> (2 :: rat) ^ 40"
    by simp
  finally have v_hi: "v \<le> 2 ^ 40"
    by (simp only: v_eq k_def)
  have "rnd (a / px) \<le> rnd v"
    using nn av by (rule rnd_mono0)
  also have "\<dots> \<le> v * (1 + 1 / 2 ^ 53)"
    by (rule rnd_rel_bounds(2) [OF normal_ge [OF v_lo]])
  also have "\<dots> = A * (1 + 1 / 2 ^ 53) / (D * (1 - 1 / 2 ^ 53)) * of_int w"
    by (simp add: v_eq)
  finally show "rnd (a / rnd (D / of_int w)) \<le> A * (1 + 1 / 2 ^ 53) / (D * (1 - 1 / 2 ^ 53)) * of_int w"
    by (simp add: px_def)
  have small: "a / px \<le> 2 ^ 40"
    using av v_hi by linarith
  show "0 \<le> rnd (a / rnd (D / of_int w))"
    using nn by (simp add: px_def rnd_nonneg)
  have "px \<noteq> 0"
    using px by simp
  then show "f64_div (Fin a) (Fin (rnd (D / of_int w))) = Fin (rnd (a / rnd (D / of_int w)))"
    using f64_round_small(1) [OF nn small] by (simp add: px_def)
qed


lemma rnd_span_lon: "rnd (lonmax_f - lon0_f) = span_lon"
  unfolding span_lon_def
  by (rule trans [OF rnd_cert [where e = 3 and n = 5349697138109072 and p = "- 49"]])
    (simp_all add: lonmax_f_def lon0_f_def pow2_def)

lemma rnd_span_east: "rnd (lon1_f - lon0_f) = dlon_f"
  unfolding dlon_f_def
  by (rule trans [OF rnd_cert [where e = 3 and n = 5349697138109074 and p = "- 49"]])
    (simp_all add: lon1_f_def lon0_f_def pow2_def)

lemma rnd_span_lat: "rnd (lat0_f - lat1) = span_lat"
  unfolding span_lat_def
  by (rule trans [OF rnd_cert [where e = 2 and n = 4579115648152274 and p = "- 50"]])
    (simp_all add: lat0_f_def lat1_def pow2_def)

lemma rnd_span_lat_in: "rnd (lat0_f - latmin_f) = span_lat_in"
  unfolding span_lat_in_def
  by (rule trans [OF rnd_cert [where e = 2 and n = 4579115648152264 and p = "- 50"]])
    (simp_all add: lat0_f_def latmin_f_def pow2_def)

lemma lon_ge_grid:
  assumes "is_f64 lon" and "lon0 \<le> lon"
  shows "lon0_f \<le> lon"
proof (cases "lon < 16")
  case False
  then show ?thesis by (simp add: lon0_f_def)
next
  case True
  have "pow2 3 \<le> lon" and "lon < pow2 (3 + 1)"
    using assms(2) True by (simp_all add: pow2_def lon0_def)
  then obtain n where n: "lon = of_int n * pow2 (3 - 52)"
    using is_f64_grid [OF assms(1), of 3] by auto
  have p: "pow2 (3 - 52) = 1 / 2 ^ 49"
    by (simp add: pow2_def)
  have "6342950892571889 < n"
  proof (rule ccontr)
    assume "\<not> 6342950892571889 < n"
    then have "n \<le> 6342950892571889" by simp
    then have "(of_int n :: rat) \<le> of_int 6342950892571889"
      by (simp only: of_int_le_iff)
    then have "lon \<le> 6342950892571889 / 2 ^ 49"
      unfolding n p by simp
    with assms(2) show False
      by (simp add: lon0_def)
  qed
  then have "6342950892571890 \<le> n" by simp
  then have "(of_int 6342950892571890 :: rat) \<le> of_int n"
    by (simp only: of_int_le_iff)
  then show ?thesis
    unfolding n p lon0_f_def by simp
qed

lemma lon_lt_grid:
  assumes "is_f64 lon" and "lon < lon1_f"
  shows "lon \<le> lonmax_f"
proof (cases "lon < 16")
  case True
  then show ?thesis by (simp add: lonmax_f_def)
next
  case False
  have "pow2 4 \<le> lon" and "lon < pow2 (4 + 1)"
    using assms(2) False by (simp_all add: pow2_def lon1_f_def)
  then obtain n where n: "lon = of_int n * pow2 (4 - 52)"
    using is_f64_grid [OF assms(1), of 4] by auto
  have p: "pow2 (4 - 52) = 1 / 2 ^ 48"
    by (simp add: pow2_def)
  have "n < 5846324015340482"
  proof (rule ccontr)
    assume "\<not> n < 5846324015340482"
    then have "5846324015340482 \<le> n" by simp
    then have "(of_int 5846324015340482 :: rat) \<le> of_int n"
      by (simp only: of_int_le_iff)
    then have "5846324015340482 / 2 ^ 48 \<le> lon"
      unfolding n p by simp
    with assms(2) show False
      by (simp add: lon1_f_def)
  qed
  then have "n \<le> 5846324015340481" by simp
  then have "(of_int n :: rat) \<le> of_int 5846324015340481"
    by (simp only: of_int_le_iff)
  then show ?thesis
    unfolding n p lonmax_f_def by simp
qed

lemma lat_gt_grid:
  assumes "is_f64 lat" and "lat1_f < lat"
  shows "latmin_f \<le> lat"
proof (cases "lat < 64")
  case False
  then show ?thesis by (simp add: latmin_f_def)
next
  case True
  have "pow2 5 \<le> lat" and "lat < pow2 (5 + 1)"
    using assms(2) True by (simp_all add: pow2_def lat1_f_def)
  then obtain n where n: "lat = of_int n * pow2 (5 - 52)"
    using is_f64_grid [OF assms(1), of 5] by auto
  have p: "pow2 (5 - 52) = 1 / 2 ^ 47"
    by (simp add: pow2_def)
  have "6769473189891277 < n"
  proof (rule ccontr)
    assume "\<not> 6769473189891277 < n"
    then have "n \<le> 6769473189891277" by simp
    then have "(of_int n :: rat) \<le> of_int 6769473189891277"
      by (simp only: of_int_le_iff)
    then have "lat \<le> 6769473189891277 / 2 ^ 47"
      unfolding n p by simp
    with assms(2) show False
      by (simp add: lat1_f_def)
  qed
  then have "6769473189891278 \<le> n" by simp
  then have "(of_int 6769473189891278 :: rat) \<le> of_int n"
    by (simp only: of_int_le_iff)
  then show ?thesis
    unfolding n p latmin_f_def by simp
qed

text \<open>
  The quotient whose integer part is the column of a longitude inside the bounds, the
  eastern bound taken as the float64 the program reads for it.
\<close>

lemma project_x:
  assumes w: "0 < w" "w \<le> 2 ^ 31" and lon: "is_f64 lon" "lon0 \<le> lon" "lon \<le> lon1_f"
  shows "f64_div (f64_sub (Fin lon) (f64_round lon0))
           (f64_div (f64_round (lon1 - lon0)) (f64_of_int w)) = Fin (qx w lon)"
    and "0 \<le> qx w lon" and "qx w lon < of_int w + 1"
    and "lon < lon1_f \<Longrightarrow> qx w lon < of_int w"
proof -
  define d where "d = lon - lon0_f"
  have d: "0 \<le> d" "d \<le> lon1_f - lon0_f"
    using lon_ge_grid [OF lon(1,2)] lon(3) by (simp_all add: d_def)
  have "lon1_f - lon0_f \<le> 2 ^ 40"
    by (simp add: lon1_f_def lon0_f_def)
  then have small: "d \<le> 2 ^ 40"
    using d(2) by linarith
  have a: "f64_sub (Fin lon) (f64_round lon0) = Fin (rnd d)" "0 \<le> rnd d"
    using f64_round_small(1,2) [OF d(1) small] by (simp_all add: fl_lon0 d_def)
  have aA: "rnd d \<le> dlon_f"
    using rnd_mono0 [OF d] by (simp add: rnd_span_east)
  have px: "f64_div (f64_round (lon1 - lon0)) (f64_of_int w) = Fin (rnd (dlon_f / of_int w))"
    unfolding fl_dlon by (rule pixel_size(1) [OF w]) (simp_all add: dlon_f_def)
  have A: "1 \<le> span_lon" "span_lon \<le> 16" and D: "4 \<le> dlon_f" "dlon_f \<le> 16"
    and D1: "1 \<le> dlon_f"
    by (simp_all add: span_lon_def dlon_f_def)
  note qb = quotient_bound [OF a(2) aA D1 D(2) D w]
  show "f64_div (f64_sub (Fin lon) (f64_round lon0))
           (f64_div (f64_round (lon1 - lon0)) (f64_of_int w)) = Fin (qx w lon)"
    unfolding a(1) px qx_def d_def [symmetric] by (rule qb(1))
  show "0 \<le> qx w lon"
    unfolding qx_def d_def [symmetric] by (rule qb(2))
  define k where "k = dlon_f * (1 + 1 / 2 ^ 53) / (dlon_f * (1 - 1 / 2 ^ 53))"
  define c where "c = k - 1"
  have c: "0 \<le> c" "c * 2 ^ 31 < 1"
    by (simp_all add: c_def k_def dlon_f_def)
  have wr: "(of_int w :: rat) \<le> 2 ^ 31"
    using of_int_le_iff [where ?'a = rat, THEN iffD2, OF w(2)] by simp
  have "qx w lon \<le> k * of_int w"
    unfolding qx_def d_def [symmetric] k_def by (rule qb(3))
  also have "\<dots> = of_int w + c * of_int w"
    by (simp add: c_def algebra_simps)
  also have "c * of_int w \<le> c * 2 ^ 31"
    using c(1) wr by (rule mult_left_mono [rotated])
  finally show "qx w lon < of_int w + 1"
    using c(2) by linarith
  show "qx w lon < of_int w" if "lon < lon1_f"
  proof -
    have dd: "d \<le> lonmax_f - lon0_f"
      using lon_lt_grid [OF lon(1) that] by (simp add: d_def)
    have aA': "rnd d \<le> span_lon"
      using rnd_mono0 [OF d(1) dd] by (simp add: rnd_span_lon)
    note qb' = quotient_bound [OF a(2) aA' A D w]
    define k' where "k' = span_lon * (1 + 1 / 2 ^ 53) / (dlon_f * (1 - 1 / 2 ^ 53))"
    have k': "k' < 1"
      by (simp add: k'_def span_lon_def dlon_f_def)
    have "qx w lon \<le> k' * of_int w"
      unfolding qx_def d_def [symmetric] k'_def by (rule qb'(3))
    also have "\<dots> < 1 * of_int w"
      using k' w(1) by (intro mult_strict_right_mono) simp_all
    finally show ?thesis
      by simp
  qed
qed

text \<open>The same for the row of a latitude, the northern bound taken as the program reads it.\<close>

lemma project_y:
  assumes h: "0 < h" "h \<le> 2 ^ 31" and lat: "lat1 \<le> lat" "lat \<le> lat0_f"
  shows "f64_div (f64_sub (f64_round lat0) (Fin lat))
           (f64_div (f64_round (lat0 - lat1)) (f64_of_int h)) = Fin (qy h lat)"
    and "0 \<le> qy h lat" and "qy h lat < of_int h + 1"
    and "is_f64 lat \<Longrightarrow> lat1_f < lat \<Longrightarrow> qy h lat < of_int h"
proof -
  define d where "d = lat0_f - lat"
  have d: "0 \<le> d" "d \<le> lat0_f - lat1"
    using lat by (simp_all add: d_def)
  have "lat0_f - lat1 \<le> 2 ^ 40"
    by (simp add: lat0_f_def lat1_def)
  then have small: "d \<le> 2 ^ 40"
    using d(2) by linarith
  have a: "f64_sub (f64_round lat0) (Fin lat) = Fin (rnd d)" "0 \<le> rnd d"
    using f64_round_small(1,2) [OF d(1) small] by (simp_all add: fl_lat0 d_def)
  have aA: "rnd d \<le> span_lat"
    using rnd_mono0 [OF d] by (simp add: rnd_span_lat)
  have px: "f64_div (f64_round (lat0 - lat1)) (f64_of_int h) = Fin (rnd (dlat_f / of_int h))"
    unfolding fl_dlat by (rule pixel_size(1) [OF h]) (simp_all add: dlat_f_def)
  have A: "1 \<le> span_lat" "span_lat \<le> 16" and D: "4 \<le> dlat_f" "dlat_f \<le> 16"
    and A': "1 \<le> span_lat_in" "span_lat_in \<le> 16"
    by (simp_all add: span_lat_def dlat_f_def span_lat_in_def)
  note qb = quotient_bound [OF a(2) aA A D h]
  show "f64_div (f64_sub (f64_round lat0) (Fin lat))
           (f64_div (f64_round (lat0 - lat1)) (f64_of_int h)) = Fin (qy h lat)"
    unfolding a(1) px qy_def d_def [symmetric] by (rule qb(1))
  show "0 \<le> qy h lat"
    unfolding qy_def d_def [symmetric] by (rule qb(2))
  define k where "k = span_lat * (1 + 1 / 2 ^ 53) / (dlat_f * (1 - 1 / 2 ^ 53))"
  define c where "c = k - 1"
  have c: "0 \<le> c" "c * 2 ^ 31 < 1"
    by (simp_all add: c_def k_def span_lat_def dlat_f_def)
  have hr: "(of_int h :: rat) \<le> 2 ^ 31"
    using of_int_le_iff [where ?'a = rat, THEN iffD2, OF h(2)] by simp
  have "qy h lat \<le> k * of_int h"
    unfolding qy_def d_def [symmetric] k_def by (rule qb(3))
  also have "\<dots> = of_int h + c * of_int h"
    by (simp add: c_def algebra_simps)
  also have "c * of_int h \<le> c * 2 ^ 31"
    using c(1) hr by (rule mult_left_mono [rotated])
  finally show "qy h lat < of_int h + 1"
    using c(2) by linarith
  show "qy h lat < of_int h" if "is_f64 lat" and "lat1_f < lat"
  proof -
    have dd: "d \<le> lat0_f - latmin_f"
      using lat_gt_grid [OF that] by (simp add: d_def)
    have aA': "rnd d \<le> span_lat_in"
      using rnd_mono0 [OF d(1) dd] by (simp add: rnd_span_lat_in)
    note qb' = quotient_bound [OF a(2) aA' A' D h]
    define k' where "k' = span_lat_in * (1 + 1 / 2 ^ 53) / (dlat_f * (1 - 1 / 2 ^ 53))"
    have k': "k' < 1"
      by (simp add: k'_def span_lat_in_def dlat_f_def)
    have "qy h lat \<le> k' * of_int h"
      unfolding qy_def d_def [symmetric] k'_def by (rule qb'(3))
    also have "\<dots> < 1 * of_int h"
      using k' h(1) by (intro mult_strict_right_mono) simp_all
    finally show ?thesis
      by simp
  qed
qed

lemma fl_lat1: "f64_round (lat1) = Fin lat1_f"
  unfolding lat1_f_def
  by (rule f64_round_cert [where e = 5 and n = 6769473189891277 and p = "- 47"]) (simp_all add: lat1_def pow2_def)

lemma fl_lon1: "f64_round (lon1) = Fin lon1_f"
  unfolding lon1_f_def
  by (rule f64_round_cert [where e = 4 and n = 5846324015340482 and p = "- 48"]) (simp_all add: lon1_def pow2_def)

lemma fl_prague_lat: "f64_round (500877 / 10000) = Fin prague_lat"
  unfolding prague_lat_def
  by (rule f64_round_cert [where e = 5 and n = 7049217095495162 and p = "- 47"]) (simp_all add: pow2_def)

lemma fl_prague_lon: "f64_round (144213 / 10000) = Fin prague_lon"
  unfolding prague_lon_def
  by (rule f64_round_cert [where e = 3 and n = 8118470163274767 and p = "- 49"]) (simp_all add: pow2_def)

lemma fl_hradec_lat: "f64_round (502104 / 10000) = Fin hradec_lat"
  unfolding hradec_lat_def
  by (rule f64_round_cert [where e = 5 and n = 7066485585316361 and p = "- 47"]) (simp_all add: pow2_def)

lemma fl_hradec_lon: "f64_round (158252 / 10000) = Fin hradec_lon"
  unfolding hradec_lon_def
  by (rule f64_round_cert [where e = 3 and n = 8908795602882947 and p = "- 49"]) (simp_all add: pow2_def)

lemma is_f64_lat1_f: "is_f64 lat1_f"
  unfolding is_f64_def
  by (rule f64_round_cert [where e = 5 and n = 6769473189891277 and p = "- 47"]) (simp_all add: lat1_f_def pow2_def)

lemma is_f64_lon1_f: "is_f64 lon1_f"
  unfolding is_f64_def
  by (rule f64_round_cert [where e = 4 and n = 5846324015340482 and p = "- 48"]) (simp_all add: lon1_f_def pow2_def)

lemma is_f64_prague_lat: "is_f64 prague_lat"
  unfolding is_f64_def
  by (rule f64_round_cert [where e = 5 and n = 7049217095495162 and p = "- 47"]) (simp_all add: prague_lat_def pow2_def)

lemma is_f64_prague_lon: "is_f64 prague_lon"
  unfolding is_f64_def
  by (rule f64_round_cert [where e = 3 and n = 8118470163274767 and p = "- 49"]) (simp_all add: prague_lon_def pow2_def)

lemma is_f64_15: "is_f64 15"
  unfolding is_f64_def
  by (rule f64_round_cert [where e = 3 and n = 8444249301319680 and p = "- 49"]) (simp_all add: pow2_def)

lemma is_f64_lon_29_2: "is_f64 (29 / 2)"
  unfolding is_f64_def
  by (rule f64_round_cert [where e = 3 and n = 8162774324609024 and p = "- 49"]) (simp_all add: pow2_def)

lemma Dx_raster500: "Dx (Rect raster500) = 500"
  by (simp add: raster500_def Clone_def Dx_def)

lemma Dy_raster500: "Dy (Rect raster500) = 500"
  by (simp add: raster500_def Clone_def Dy_def)

lemma Dx_raster728: "Dx (Rect raster728) = 728"
  by (simp add: raster728_def Clone_def Dx_def)

lemma Dy_raster728: "Dy (Rect raster728) = 528"
  by (simp add: raster728_def Clone_def Dy_def)

lemma Dx_olive: "Dx (Rect (Clone olive)) = 9"
  by (simp add: olive_def Clone_def Dx_def)

lemma Dy_olive: "Dy (Rect (Clone olive)) = 9"
  by (simp add: olive_def Clone_def Dy_def)

lemma f64_of_int_500: "f64_of_int 500 = Fin 500"
  unfolding f64_of_int_def
  by (rule f64_round_cert [where e = 8 and n = 8796093022208000 and p = "- 44"]) (simp_all add: pow2_def)

lemma f64_of_int_728: "f64_of_int 728 = Fin 728"
  unfolding f64_of_int_def
  by (rule f64_round_cert [where e = 9 and n = 6403555720167424 and p = "- 43"]) (simp_all add: pow2_def)

lemma f64_of_int_528: "f64_of_int 528 = Fin 528"
  unfolding f64_of_int_def
  by (rule f64_round_cert [where e = 9 and n = 4644337115725824 and p = "- 43"]) (simp_all add: pow2_def)

lemma f64_of_int_9: "f64_of_int 9 = Fin 9"
  unfolding f64_of_int_def
  by (rule f64_round_cert [where e = 3 and n = 5066549580791808 and p = "- 49"]) (simp_all add: pow2_def)

lemma lonPixelSize_raster500: "lonPixelSize raster500 = Fin (1369522467355923 / 72057594037927936)"
  unfolding lonPixelSize_def fl_dlon dlon_f_def Dx_raster500 f64_of_int_500
  by (rule f64_div_cert [where e = "- 6" and n = 5478089869423692 and p = "- 58"])
    (simp_all add: pow2_def)

lemma latPixelSize_raster500: "latPixelSize raster500 = Fin (4689014423707927 / 576460752303423488)"
  unfolding latPixelSize_def fl_dlat dlat_f_def Dy_raster500 f64_of_int_500
  by (rule f64_div_cert [where e = "- 7" and n = 4689014423707927 and p = "- 59"])
    (simp_all add: pow2_def)

lemma prague_a: "f64_sub (Fin (8118470163274767 / 562949953421312)) (f64_round lon0) = Fin (1775519270702877 / 562949953421312)"
  unfolding fl_lon0 lon0_f_def
  by (rule f64_sub_cert [where e = 1 and n = 7102077082811508 and p = "- 51"])
    (simp_all add: pow2_def)

lemma prague_qx: "f64_div (Fin (1775519270702877 / 562949953421312)) (Fin (1369522467355923 / 72057594037927936)) = Fin (5838697879388995 / 35184372088832)"
  by (rule f64_div_cert [where e = 7 and n = 5838697879388995 and p = "- 45"])
    (simp_all add: pow2_def)

lemma prague_b: "f64_sub (f64_round lat0) (Fin (3524608547747581 / 70368744177664)) = Fin (292645550415149 / 140737488355328)"
  unfolding fl_lat0 lat0_f_def
  by (rule f64_sub_cert [where e = 1 and n = 4682328806642384 and p = "- 51"])
    (simp_all add: pow2_def)

lemma prague_qy: "f64_div (Fin (292645550415149 / 140737488355328)) (Fin (4689014423707927 / 576460752303423488)) = Fin (2248589187762145 / 8796093022208)"
  by (rule f64_div_cert [where e = 7 and n = 8994356751048580 and p = "- 45"])
    (simp_all add: pow2_def)

lemma project_prague:
  "project impl (lonPixelSize raster500) (latPixelSize raster500) (Fin (3524608547747581 / 70368744177664)) (Fin (8118470163274767 / 562949953421312)) = (165, 255)"
  unfolding project_def Let_def lonPixelSize_raster500 latPixelSize_raster500 prague_a prague_qx prague_b prague_qy
  by (simp add: f64_to_int_def rat_trunc_def floor_eq_iff ceiling_eq_iff)

lemma west_a: "f64_sub (Fin (45 / 4)) (f64_round lon0) = Fin ((- (4881958291065 / 281474976710656)))"
  unfolding fl_lon0 lon0_f_def
  by (rule f64_sub_cert [where e = "- 6" and n = "- 4999125290050560" and p = "- 58"])
    (simp_all add: pow2_def)

lemma west_qx: "f64_div (Fin ((- (4881958291065 / 281474976710656)))) (Fin (1369522467355923 / 72057594037927936)) = Fin ((- (4109837430582105 / 4503599627370496)))"
  by (rule f64_div_cert [where e = "- 1" and n = "- 8219674861164210" and p = "- 53"])
    (simp_all add: pow2_def)

lemma west_b: "f64_sub (f64_round lat0) (Fin (50)) = Fin (304988228143911 / 140737488355328)"
  unfolding fl_lat0 lat0_f_def
  by (rule f64_sub_cert [where e = 1 and n = 4879811650302576 and p = "- 51"])
    (simp_all add: pow2_def)

lemma west_qy: "f64_div (Fin (304988228143911 / 140737488355328)) (Fin (4689014423707927 / 576460752303423488)) = Fin (4686852277277147 / 17592186044416)"
  by (rule f64_div_cert [where e = 8 and n = 4686852277277147 and p = "- 44"])
    (simp_all add: pow2_def)

lemma project_west:
  "project impl (lonPixelSize raster500) (latPixelSize raster500) (Fin (50)) (Fin (45 / 4)) = (0, 266)"
  unfolding project_def Let_def lonPixelSize_raster500 latPixelSize_raster500 west_a west_qx west_b west_qy
  by (simp add: f64_to_int_def rat_trunc_def floor_eq_iff ceiling_eq_iff)

lemma lonPixelSize_raster728: "lonPixelSize raster728 = Fin (235151522554245 / 18014398509481984)"
  unfolding lonPixelSize_def fl_dlon dlon_f_def Dx_raster728 f64_of_int_728
  by (rule f64_div_cert [where e = "- 7" and n = 7524848721735840 and p = "- 59"])
    (simp_all add: pow2_def)

lemma latPixelSize_raster728: "latPixelSize raster728 = Fin (8880709135810467 / 1152921504606846976)"
  unfolding latPixelSize_def fl_dlat dlat_f_def Dy_raster728 f64_of_int_528
  by (rule f64_div_cert [where e = "- 8" and n = 8880709135810467 and p = "- 60"])
    (simp_all add: pow2_def)

lemma south_a: "f64_sub (Fin (29 / 2)) (f64_round lon0) = Fin (909911716018567 / 281474976710656)"
  unfolding fl_lon0 lon0_f_def
  by (rule f64_sub_cert [where e = 1 and n = 7279293728148536 and p = "- 51"])
    (simp_all add: pow2_def)

lemma south_qx: "f64_div (Fin (909911716018567 / 281474976710656)) (Fin (235151522554245 / 18014398509481984)) = Fin (4356635692477777 / 17592186044416)"
  by (rule f64_div_cert [where e = 7 and n = 8713271384955554 and p = "- 45"])
    (simp_all add: pow2_def)

lemma south_b: "f64_sub (f64_round lat0) (Fin (6769473189891277 / 140737488355328)) = Fin (286194728009517 / 70368744177664)"
  unfolding fl_lat0 lat0_f_def
  by (rule f64_sub_cert [where e = 2 and n = 4579115648152272 and p = "- 50"])
    (simp_all add: pow2_def)

lemma south_qy: "f64_div (Fin (286194728009517 / 70368744177664)) (Fin (8880709135810467 / 1152921504606846976)) = Fin (528)"
  by (rule f64_div_cert [where e = 9 and n = 4644337115725824 and p = "- 43"])
    (simp_all add: pow2_def)

lemma project_south:
  "project impl (lonPixelSize raster728) (latPixelSize raster728) (Fin (6769473189891277 / 140737488355328)) (Fin (29 / 2)) = (247, 528)"
  unfolding project_def Let_def lonPixelSize_raster728 latPixelSize_raster728 south_a south_qx south_b south_qy
  by (simp add: f64_to_int_def rat_trunc_def floor_eq_iff ceiling_eq_iff)

lemma east_a: "f64_sub (Fin (2923162007670241 / 140737488355328)) (f64_round lon0) = Fin (2674848569054537 / 281474976710656)"
  unfolding fl_lon0 lon0_f_def
  by (rule f64_sub_cert [where e = 3 and n = 5349697138109074 and p = "- 49"])
    (simp_all add: pow2_def)

lemma east_qx: "f64_div (Fin (2674848569054537 / 281474976710656)) (Fin (235151522554245 / 18014398509481984)) = Fin (728)"
  by (rule f64_div_cert [where e = 9 and n = 6403555720167424 and p = "- 43"])
    (simp_all add: pow2_def)

lemma east_b: "f64_sub (f64_round lat0) (Fin (50)) = Fin (304988228143911 / 140737488355328)"
  unfolding fl_lat0 lat0_f_def
  by (rule f64_sub_cert [where e = 1 and n = 4879811650302576 and p = "- 51"])
    (simp_all add: pow2_def)

lemma east_qy: "f64_div (Fin (304988228143911 / 140737488355328)) (Fin (8880709135810467 / 1152921504606846976)) = Fin (1237329001201167 / 4398046511104)"
  by (rule f64_div_cert [where e = 8 and n = 4949316004804668 and p = "- 44"])
    (simp_all add: pow2_def)

lemma project_east:
  "project impl (lonPixelSize raster728) (latPixelSize raster728) (Fin (50)) (Fin (2923162007670241 / 140737488355328)) = (728, 281)"
  unfolding project_def Let_def lonPixelSize_raster728 latPixelSize_raster728 east_a east_qx east_b east_qy
  by (simp add: f64_to_int_def rat_trunc_def floor_eq_iff ceiling_eq_iff)

lemma lonPixelSize_olive: "lonPixelSize (Clone olive) = Fin (1188821586246461 / 1125899906842624)"
  unfolding lonPixelSize_def fl_dlon dlon_f_def Dx_olive f64_of_int_9
  by (rule f64_div_cert [where e = 0 and n = 4755286344985844 and p = "- 52"])
    (simp_all add: pow2_def)

lemma latPixelSize_olive: "latPixelSize (Clone olive) = Fin (8140650041159595 / 18014398509481984)"
  unfolding latPixelSize_def fl_dlat dlat_f_def Dy_olive f64_of_int_9
  by (rule f64_div_cert [where e = "- 2" and n = 8140650041159595 and p = "- 54"])
    (simp_all add: pow2_def)

lemma hradec_a: "f64_sub (Fin (8908795602882947 / 562949953421312)) (f64_round lon0) = Fin (2565844710311057 / 562949953421312)"
  unfolding fl_lon0 lon0_f_def
  by (rule f64_sub_cert [where e = 2 and n = 5131689420622114 and p = "- 50"])
    (simp_all add: pow2_def)

lemma hradec_qx: "f64_div (Fin (2565844710311057 / 562949953421312)) (Fin (1188821586246461 / 1125899906842624)) = Fin (2430040263176167 / 562949953421312)"
  by (rule f64_div_cert [where e = 2 and n = 4860080526352334 and p = "- 50"])
    (simp_all add: pow2_def)

lemma hradec_b: "f64_sub (f64_round lat0) (Fin (7066485585316361 / 140737488355328)) = Fin (137688530296975 / 70368744177664)"
  unfolding fl_lat0 lat0_f_def
  by (rule f64_sub_cert [where e = 0 and n = 8812065939006400 and p = "- 52"])
    (simp_all add: pow2_def)

lemma hradec_qy: "f64_div (Fin (137688530296975 / 70368744177664)) (Fin (8140650041159595 / 18014398509481984)) = Fin (1218760684915169 / 281474976710656)"
  by (rule f64_div_cert [where e = 2 and n = 4875042739660676 and p = "- 50"])
    (simp_all add: pow2_def)

lemma project_hradec:
  "project impl (lonPixelSize (Clone olive)) (latPixelSize (Clone olive)) (Fin (7066485585316361 / 140737488355328)) (Fin (8908795602882947 / 562949953421312)) = (4, 4)"
  unfolding project_def Let_def lonPixelSize_olive latPixelSize_olive hradec_a hradec_qx hradec_b hradec_qy
  by (simp add: f64_to_int_def rat_trunc_def floor_eq_iff ceiling_eq_iff)

lemma qx_mono:
  assumes "0 < w" and "w \<le> 2 ^ 31" and "lon0_f \<le> lon" and "lon \<le> lon'"
  shows "qx w lon \<le> qx w lon'"
proof -
  have px: "0 < rnd (dlon_f / of_int w)"
    by (rule pixel_size(3) [OF assms(1,2)]) (simp_all add: dlon_f_def)
  have a: "0 \<le> rnd (lon - lon0_f)"
    using assms(3) by (simp add: rnd_nonneg)
  have "rnd (lon - lon0_f) \<le> rnd (lon' - lon0_f)"
    using assms(3,4) by (intro rnd_mono0) simp_all
  then have "rnd (lon - lon0_f) / rnd (dlon_f / of_int w)
      \<le> rnd (lon' - lon0_f) / rnd (dlon_f / of_int w)"
    using px by (simp add: divide_right_mono)
  moreover have "0 \<le> rnd (lon - lon0_f) / rnd (dlon_f / of_int w)"
    using a px by simp
  ultimately show ?thesis
    unfolding qx_def by (intro rnd_mono0)
qed

lemma qy_antimono:
  assumes "0 < h" and "h \<le> 2 ^ 31" and "lat \<le> lat'" and "lat' \<le> lat0_f"
  shows "qy h lat' \<le> qy h lat"
proof -
  have px: "0 < rnd (dlat_f / of_int h)"
    by (rule pixel_size(3) [OF assms(1,2)]) (simp_all add: dlat_f_def)
  have a: "0 \<le> rnd (lat0_f - lat')"
    using assms(4) by (simp add: rnd_nonneg)
  have "rnd (lat0_f - lat') \<le> rnd (lat0_f - lat)"
    using assms(3,4) by (intro rnd_mono0) simp_all
  then have "rnd (lat0_f - lat') / rnd (dlat_f / of_int h)
      \<le> rnd (lat0_f - lat) / rnd (dlat_f / of_int h)"
    using px by (simp add: divide_right_mono)
  moreover have "0 \<le> rnd (lat0_f - lat') / rnd (dlat_f / of_int h)"
    using a px by simp
  ultimately show ?thesis
    unfolding qy_def by (intro rnd_mono0)
qed

lemma fst_project:
  "fst (project impl lx ly lat lon) = f64_to_int impl (f64_div (f64_sub lon (f64_round lon0)) lx)"
  by (simp add: project_def Let_def)

lemma snd_project:
  "snd (project impl lx ly lat lon) = f64_to_int impl (f64_div (f64_sub (f64_round lat0) lat) ly)"
  by (simp add: project_def Let_def)

lemma rat_trunc_range:
  assumes "- (2 ^ 63) < q" and "q < 2 ^ 63"
  shows "- (2 ^ 63) \<le> rat_trunc q" and "rat_trunc q < 2 ^ 63"
proof -
  have "(- (2 ^ 63) :: rat) = of_int (- (2 ^ 63))" and "(2 ^ 63 :: rat) = of_int (2 ^ 63)"
    by simp_all
  then have "of_int (- (2 ^ 63)) < q" and "q < of_int (2 ^ 63)"
    using assms by (simp_all only:)
  then have "- (2 ^ 63) < \<lceil>q\<rceil>" and "\<lfloor>q\<rfloor> < 2 ^ 63"
    by (simp_all only: less_ceiling_iff floor_less_iff)
  moreover have "0 \<le> q \<Longrightarrow> 0 \<le> \<lfloor>q\<rfloor>" and "\<not> 0 \<le> q \<Longrightarrow> \<lceil>q\<rceil> \<le> 0"
    by (simp_all add: ceiling_le_iff)
  ultimately show "- (2 ^ 63) \<le> rat_trunc q" and "rat_trunc q < 2 ^ 63"
    unfolding rat_trunc_def by (cases "0 \<le> q"; simp)+
qed

lemma f64_to_int_Fin:
  assumes "- (2 ^ 63) < q" and "q < 2 ^ 63"
  shows "f64_to_int impl (Fin q) = rat_trunc q"
  using rat_trunc_range [OF assms] by (simp add: f64_to_int_def)

lemma column_of:
  assumes "0 < Dx (Rect bitmap)" and "Dx (Rect bitmap) \<le> 2 ^ 31"
    and "is_f64 lon" and "lon0 \<le> lon" and "lon \<le> lon1_f"
  shows "fst (project impl (lonPixelSize bitmap) (latPixelSize bitmap) lat (Fin lon))
    = \<lfloor>qx (Dx (Rect bitmap)) lon\<rfloor>"
proof -
  note x = project_x [OF assms]
  have "(of_int (Dx (Rect bitmap)) :: rat) \<le> of_int (2 ^ 31)"
    using assms(2) by (simp only: of_int_le_iff)
  then have "qx (Dx (Rect bitmap)) lon < 2 ^ 63"
    using x(3) by simp
  moreover have "- (2 ^ 63) < qx (Dx (Rect bitmap)) lon"
    using x(2) by (simp add: less_le_trans [of _ 0])
  ultimately show ?thesis
    using x(2) by (simp add: fst_project lonPixelSize_def x(1) f64_to_int_Fin rat_trunc_def)
qed

lemma row_of:
  assumes "0 < Dy (Rect bitmap)" and "Dy (Rect bitmap) \<le> 2 ^ 31"
    and "lat1 \<le> lat" and "lat \<le> lat0_f"
  shows "snd (project impl (lonPixelSize bitmap) (latPixelSize bitmap) (Fin lat) lon)
    = \<lfloor>qy (Dy (Rect bitmap)) lat\<rfloor>"
proof -
  note y = project_y [OF assms]
  have "(of_int (Dy (Rect bitmap)) :: rat) \<le> of_int (2 ^ 31)"
    using assms(2) by (simp only: of_int_le_iff)
  then have "qy (Dy (Rect bitmap)) lat < 2 ^ 63"
    using y(3) by simp
  moreover have "- (2 ^ 63) < qy (Dy (Rect bitmap)) lat"
    using y(2) by (simp add: less_le_trans [of _ 0])
  ultimately show ?thesis
    using y(2) by (simp add: snd_project latPixelSize_def y(1) f64_to_int_Fin rat_trunc_def)
qed

section \<open>Images, sampling and the loop over the cities\<close>

lemma PixOffset_in_range:
  assumes "wf_image p" and "point_in x y (Rect p)"
  shows "0 \<le> PixOffset p x y \<and> PixOffset p x y + 4 \<le> int (length (Pix p))"
proof -
  define dx where "dx = x - MinX (Rect p)"
  define dy where "dy = y - MinY (Rect p)"
  have dx: "0 \<le> dx" "dx + 1 \<le> Dx (Rect p)" and dy: "0 \<le> dy" "dy + 1 \<le> Dy (Rect p)"
    using assms(2) by (simp_all add: point_in_def dx_def dy_def Dx_def Dy_def)
  have st: "0 \<le> Stride p" "4 * Dx (Rect p) \<le> Stride p"
    and len: "Stride p * Dy (Rect p) \<le> int (length (Pix p))"
    using assms(1) by (simp_all add: wf_image_def)
  have lo: "0 \<le> dy * Stride p"
    using dy(1) st(1) by simp
  have "(dy + 1) * Stride p \<le> Dy (Rect p) * Stride p"
    using dy(2) st(1) by (rule mult_right_mono)
  then have "dy * Stride p + Stride p \<le> int (length (Pix p))"
    using len by (simp add: algebra_simps)
  then show ?thesis
    using lo dx st(2) by (simp add: PixOffset_def dx_def [symmetric] dy_def [symmetric])
qed

lemma At_total:
  assumes "wf_image p"
  shows "\<exists>c. At p x y = Some c"
  using PixOffset_in_range [OF assms, of x y] by (simp add: At_def Let_def)

lemma At_outside: "\<not> point_in x y (Rect p) \<Longrightarrow> At p x y = Some (NRGBA 0 0 0 0)"
  by (simp add: At_def)

lemma sample_total:
  assumes "wf_image p"
  shows "sample p x y d (Some acc) \<noteq> None"
proof -
  obtain c where "At p (wrap64 (x + fst d)) (wrap64 (y + snd d)) = Some c"
    using At_total [OF assms] by blast
  then show ?thesis
    by (simp add: sample_def split: prod.splits)
qed

lemma fold_sample_total:
  assumes "wf_image p"
  shows "fold (sample p x y) ds (Some acc) \<noteq> None"
proof (induction ds arbitrary: acc)
  case Nil
  then show ?case by simp
next
  case (Cons d ds)
  obtain t where "sample p x y d (Some acc) = Some t"
    using sample_total [OF assms] by blast
  then show ?case
    using Cons.IH [of t] by simp
qed

lemma getAvgColor_total:
  assumes "wf_image p"
  shows "getAvgColor p x y \<noteq> None"
  using fold_sample_total [OF assms, of x y "List.product [-4..4] [-4..4]" "(0, 0, 0, 0)"]
  by (auto simp: getAvgColor_def split: option.splits)

lemma RGBA_zero: "RGBA (NRGBA 0 0 0 0) = (0, 0, 0, 0)"
  by (simp add: RGBA_def premul_def)

lemma fold_sample_outside:
  assumes "\<forall>d \<in> set ds. \<not> point_in (wrap64 (x + fst d)) (wrap64 (y + snd d)) (Rect p)"
  shows "\<exists>t. fold (sample p x y) ds (Some (0, 0, 0, n)) = Some (0, 0, 0, t)"
  using assms
proof (induction ds arbitrary: n)
  case Nil
  then show ?case by simp
next
  case (Cons d ds)
  have "sample p x y d (Some (0, 0, 0, n)) = Some (0, 0, 0, n + 1)"
    using Cons.prems by (simp add: sample_def At_outside RGBA_zero)
  then show ?case
    using Cons.IH [of "n + 1"] Cons.prems by simp
qed

lemma getAvgColor_outside:
  assumes "outside p x y"
  shows "getAvgColor p x y = Some (0, 0, 0)"
proof -
  obtain t where "fold (sample p x y) (List.product [-4..4] [-4..4]) (Some (0, 0, 0, 0)) = Some (0, 0, 0, t)"
    using fold_sample_outside [of "List.product [-4..4] [-4..4]" x y p 0] assms
    unfolding outside_def by blast
  then show ?thesis
    by (simp add: getAvgColor_def)
qed

lemma length_concat_const:
  assumes "\<And>x. x \<in> set xs \<Longrightarrow> length (f x) = k"
  shows "length (concat (map f xs)) = length xs * k"
  using assms by (induction xs) simp_all

lemma length_Pix_Clone: "length (Pix (Clone img)) = height img * (width img * 4)"
proof -
  have row: "length (concat (map (\<lambda>x. case pixel img x y of NRGBA r g b a \<Rightarrow> [r, g, b, a])
      [0..<width img])) = width img * 4" for y
    by (subst length_concat_const [where k = 4]) (simp_all split: NRGBA.splits)
  show ?thesis
    unfolding Clone_def by (simp add: length_concat_const [where k = "width img * 4"] row)
qed

lemma Clone_wf: "wf_image (Clone img)"
  using length_Pix_Clone [of img]
  by (simp add: wf_image_def Dx_def Dy_def) (simp add: Clone_def algebra_simps)

lemma set_pixel_shape:
  "Rect (set_pixel c xy p) = Rect p" "Stride (set_pixel c xy p) = Stride p"
  "length (Pix (set_pixel c xy p)) = length (Pix p)"
  by (simp_all add: set_pixel_def Let_def)

lemma fold_set_pixel_shape:
  "Rect (fold (set_pixel c) ps p) = Rect p \<and> Stride (fold (set_pixel c) ps p) = Stride p
   \<and> length (Pix (fold (set_pixel c) ps p)) = length (Pix p)"
  by (induction ps arbitrary: p) (simp_all add: set_pixel_shape)

lemma Draw_shape:
  "Rect (Draw dst r c) = Rect dst" "Stride (Draw dst r c) = Stride dst"
  "length (Pix (Draw dst r c)) = length (Pix dst)"
  by (simp_all add: Draw_def Let_def fold_set_pixel_shape)

lemma Draw_wf: "wf_image dst \<Longrightarrow> wf_image (Draw dst r c)"
  by (simp add: wf_image_def Draw_shape)


lemma loop_at_Suc:
  "loop_at impl bitmap h (Suc i) =
     classify impl (lonPixelSize bitmap) (latPixelSize bitmap) i (loop_at impl bitmap h i)"
  by (simp add: loop_at_def)

lemma loop_inv_0:
  assumes "wf_image bitmap"
  shows "\<exists>b h'. loop_at impl bitmap h 0 = Result (b, h') \<and> loop_inv impl bitmap h 0 b h'"
  using assms by (simp add: loop_at_def loop_inv_def)

lemma loop_inv_Suc:
  assumes at: "loop_at impl bitmap h i = Result (b, h')" and inv: "loop_inv impl bitmap h i b h'"
    and i: "i < length (Cities h)"
  shows "\<exists>b2 h2. loop_at impl bitmap h (Suc i) = Result (b2, h2) \<and> loop_inv impl bitmap h (Suc i) b2 h2"
proof -
  have wf: "wf_image b" and rect: "Rect b = Rect bitmap" and locked: "m_locked h'"
    and len: "length (Cities h') = length (Cities h)"
    and rain: "CitiesWithRain h' = filter (rains impl bitmap h) [0..<i]"
    and cities: "\<And>j. j < length (Cities h) \<Longrightarrow> Cities h' ! j =
          (if j < i \<and> rains impl bitmap h j
           then paint (Cities h ! j) (the (sampled impl bitmap h j)) else Cities h ! j)"
    using inv by (simp_all add: loop_inv_def)
  have same: "Cities h' ! i = Cities h ! i"
    using cities [OF i] by simp
  obtain x y where xy: "project impl (lonPixelSize bitmap) (latPixelSize bitmap)
      (Lat (Cities h ! i)) (Lon (Cities h ! i)) = (x, y)"
    by (cases "project impl (lonPixelSize bitmap) (latPixelSize bitmap)
      (Lat (Cities h ! i)) (Lon (Cities h ! i))")
  obtain r g bl where avg: "getAvgColor b x y = Some (r, g, bl)"
    using getAvgColor_total [OF wf, of x y] by (cases "getAvgColor b x y") auto
  have smp: "sampled impl bitmap h i = Some (r, g, bl)"
    by (simp add: sampled_def at xy avg)
  have rains: "rains impl bitmap h i \<longleftrightarrow> 0 < r + g + bl"
    by (simp add: rains_def smp)
  show ?thesis
  proof (cases "0 < r + g + bl")
    case True
    define b2 where "b2 = Draw b (marker x y) (NRGBA r g bl 255)"
    define h2 where "h2 = h'\<lparr>Cities := (Cities h')[i := (Cities h ! i)\<lparr>R := r, G := g, B := bl\<rparr>],
                          CitiesWithRain := CitiesWithRain h' @ [i]\<rparr>"
    have step: "loop_at impl bitmap h (Suc i) = Result (b2, h2)"
      using True by (simp add: loop_at_Suc at classify_def same xy avg b2_def h2_def)
    have "Cities h2 ! j = (if j < Suc i \<and> rains impl bitmap h j
           then paint (Cities h ! j) (the (sampled impl bitmap h j)) else Cities h ! j)"
      if "j < length (Cities h)" for j
    proof (cases "j = i")
      case True
      then show ?thesis
        using i len rains \<open>0 < r + g + bl\<close> by (simp add: h2_def smp paint_def)
    next
      case False
      then show ?thesis
        using cities [OF that] by (auto simp: h2_def less_Suc_eq)
    qed
    then have "loop_inv impl bitmap h (Suc i) b2 h2"
      using True wf rect locked len rain rains
      by (simp add: loop_inv_def b2_def Draw_wf Draw_shape) (simp add: h2_def)
    with step show ?thesis by blast
  next
    case False
    define b2 where "b2 = Draw b (marker x y) (NRGBA 0 0 0 255)"
    have step: "loop_at impl bitmap h (Suc i) = Result (b2, h')"
      using False by (simp add: loop_at_Suc at classify_def same xy avg b2_def)
    have "Cities h' ! j = (if j < Suc i \<and> rains impl bitmap h j
           then paint (Cities h ! j) (the (sampled impl bitmap h j)) else Cities h ! j)"
      if "j < length (Cities h)" for j
      using cities [OF that] rains False by (auto simp: less_Suc_eq)
    then have "loop_inv impl bitmap h (Suc i) b2 h'"
      using False wf rect locked len rain rains
      by (simp add: loop_inv_def b2_def Draw_wf Draw_shape)
    with step show ?thesis by blast
  qed
qed

lemma loop_inv_at:
  assumes "wf_image bitmap" and "i \<le> length (Cities h)"
  shows "\<exists>b h'. loop_at impl bitmap h i = Result (b, h') \<and> loop_inv impl bitmap h i b h'"
  using assms(2)
proof (induction i)
  case 0
  show ?case by (rule loop_inv_0 [OF assms(1)])
next
  case (Suc i)
  then obtain b h' where "loop_at impl bitmap h i = Result (b, h')" "loop_inv impl bitmap h i b h'"
    by auto
  then show ?case
    using Suc.prems by (intro loop_inv_Suc) simp_all
qed

lemma classify_all_inv:
  assumes "wf_image bitmap"
  shows "\<exists>b h'. classify_all impl bitmap h = Result (b, h')
           \<and> loop_inv impl bitmap h (length (Cities h)) b h'"
  unfolding classify_all_def by (rule loop_inv_at [OF assms]) simp


lemma word_sum_pos:
  fixes r g b :: "8 word"
  assumes "0 < r + g + b"
  shows "0 < unat r + unat g + unat b"
proof (rule ccontr)
  assume "\<not> 0 < unat r + unat g + unat b"
  then have "unat r = 0" "unat g = 0" "unat b = 0" by simp_all
  then have "r = 0" "g = 0" "b = 0" by (simp_all add: unat_eq_0)
  with assms show False by simp
qed

lemma loop_inv_snapshot_ok:
  assumes "loop_inv impl bitmap h i b h'" and "i \<le> length (Cities h)"
  shows "snapshot_ok h'"
  unfolding snapshot_ok_def
proof
  fix j
  assume "j \<in> set (CitiesWithRain h')"
  then have j: "j < i" "rains impl bitmap h j"
    using assms(1) by (simp_all add: loop_inv_def)
  then have len: "j < length (Cities h)"
    using assms(2) by simp
  obtain r g bl where smp: "sampled impl bitmap h j = Some (r, g, bl)" and pos: "0 < r + g + bl"
    using j(2) by (auto simp: rains_def split: option.splits)
  have "Cities h' ! j = paint (Cities h ! j) (r, g, bl)"
    using assms(1) len j smp by (simp add: loop_inv_def)
  then have "colour_sum (Cities h' ! j) = unat r + unat g + unat bl"
    by (simp add: colour_sum_def paint_def)
  then show "j < length (Cities h') \<and> 0 < colour_sum (Cities h' ! j)"
    using word_sum_pos [OF pos] len assms(1) by (simp add: loop_inv_def)
qed

lemma prepare_handler:
  "prepare env w = Inl (st, w') \<Longrightarrow> handler w' = handler w"
  "prepare env w = Inr (d, img, w') \<Longrightarrow> handler w' = handler w"
  by (auto simp: prepare_def Let_def split: option.splits if_splits go.splits)

lemma tick_snapshot_ok:
  assumes "snapshot_ok (handler w)"
  shows "snapshot_ok (handler (snd (tick env w)))"
proof (cases "prepare env w")
  case (Inl a)
  then show ?thesis
    using assms prepare_handler(1) [of env w "fst a" "snd a"] by (simp add: tick_def)
next
  case (Inr a)
  obtain d img w1 where a: "a = (d, img, w1)"
    by (cases a)
  obtain b h' where cl: "classify_all (f2i env) (Clone img) (handler w1) = Result (b, h')"
    and inv: "loop_inv (f2i env) (Clone img) (handler w1) (length (Cities (handler w1))) b h'"
    using classify_all_inv [OF Clone_wf] by blast
  have ok: "snapshot_ok h'"
    using loop_inv_snapshot_ok [OF inv] by simp
  then have "snapshot_ok (h'\<lparr>m_locked := False\<rparr>)"
    by (simp add: snapshot_ok_def)
  with ok show ?thesis
    by (simp add: tick_def Inr a cl Let_def)
qed

lemma run_snapshot_ok:
  assumes "snapshot_ok (handler w)"
  shows "snapshot_ok (handler (snd (run envs w)))"
  using assms
proof (induction envs arbitrary: w)
  case Nil
  then show ?case by simp
next
  case (Cons env envs)
  obtain st w' where t: "tick env w = (st, w')"
    by (cases "tick env w")
  have ok: "snapshot_ok (handler w')"
    using tick_snapshot_ok [OF Cons.prems, of env] t by simp
  show ?case
    using Cons.IH [OF ok] ok t by (cases st) simp_all
qed

lemma start_snapshot_ok: "snapshot_ok (handler (start fs records))"
  by (simp add: start_def LoadCities_def snapshot_ok_def)

section \<open>One pass of the loop\<close>

lemma sweep_Cons:
  "sweep env (name # rest) fs = sweep env rest (if doomed env fs name then fs(name := None) else fs)"
  by (simp add: doomed_def not_less split: option.splits)

lemma sweep_doomed:
  "sweep env names fs n = (if n \<in> set names \<and> doomed env fs n then None else fs n)"
proof (induction names arbitrary: fs)
  case Nil
  show ?case by simp
next
  case (Cons name rest)
  show ?case
  proof (cases "doomed env fs name")
    case True
    have "doomed env (fs(name := None)) n \<longleftrightarrow> n \<noteq> name \<and> doomed env fs n"
      by (simp add: doomed_def)
    then show ?thesis
      using True by (simp only: sweep_Cons Cons.IH if_True) auto
  next
    case False
    then show ?thesis
      by (simp only: sweep_Cons Cons.IH if_False) auto
  qed
qed

lemma prepare_Inr:
  assumes "prepare env w = Inr (d, img, w1)"
  shows "dateTxt_of (formattedDate env) = Some d"
    and "w1 = w\<lparr>files := sweep env (os_ReadDir env) (files w), gets := gets w + 1\<rparr>"
  using assms
  by (auto simp: prepare_def Let_def split: option.splits if_splits go.splits)

lemma tick_Inr:
  assumes "prepare env w = Inr (d, img, w1)"
  shows "\<exists>b h'. classify_all (f2i env) (Clone img) (handler w) = Result (b, h')
    \<and> loop_inv (f2i env) (Clone img) (handler w) (length (Cities (handler w))) b h'
    \<and> tick env w =
      (if Create_err env then (Exited, w1\<lparr>handler := h'\<rparr>)
       else if Encode_err env
         then (Exited, w1\<lparr>handler := h', files := (files w1)(artifact d \<mapsto> now env)\<rparr>)
         else (Running, w1\<lparr>handler := h'\<lparr>m_locked := False\<rparr>,
                           files := (files w1)(artifact d \<mapsto> now env)\<rparr>))"
proof -
  obtain b h' where cl: "classify_all (f2i env) (Clone img) (handler w) = Result (b, h')"
    and inv: "loop_inv (f2i env) (Clone img) (handler w) (length (Cities (handler w))) b h'"
    using classify_all_inv [OF Clone_wf] by blast
  have "handler w1 = handler w"
    using prepare_handler(2) [OF assms] .
  then have "tick env w =
      (if Create_err env then (Exited, w1\<lparr>handler := h'\<rparr>)
       else if Encode_err env
         then (Exited, w1\<lparr>handler := h', files := (files w1)(artifact d \<mapsto> now env)\<rparr>)
         else (Running, w1\<lparr>handler := h'\<lparr>m_locked := False\<rparr>,
                           files := (files w1)(artifact d \<mapsto> now env)\<rparr>))"
    by (simp add: tick_def assms cl Let_def)
  with cl inv show ?thesis by blast
qed

lemma tick_skip:
  assumes "dateTxt_of (formattedDate env) = Some d" and "files w (artifact d) = Some t"
    and "now env - t < Hour" and "\<not> Stat_err env"
  shows "tick env w = (Running, w\<lparr>files := sweep env (os_ReadDir env) (files w)\<rparr>)"
proof -
  have "\<not> doomed env (files w) (artifact d)"
    using assms(2,3) by (simp add: doomed_def)
  then have "sweep env (os_ReadDir env) (files w) (artifact d) = Some t"
    using assms(2) by (simp add: sweep_doomed)
  then show ?thesis
    using assms(1,4) by (simp add: tick_def prepare_def)
qed

lemma prepare_env_ok: "prepare env_ok world0 = Inr (''20240101.1200'', olive, world0\<lparr>gets := 1\<rparr>)"
  by (simp add: prepare_def env_ok_def world0_def start_def dateTxt_of_def format_def
      downloadRadar_def artifact_def)

text \<open>Whether a pass issues a request, and what a pass that gets a bad status leaves.\<close>

lemma run_single: "run [env] w = tick env w"
  by (simp split: prod.splits status.splits)

lemma run_Running: "tick env w = (Running, w') \<Longrightarrow> run (env # envs) w = run envs w'"
  by simp

lemma sweep_absent: "fs n = None \<Longrightarrow> sweep env names fs n = None"
  by (simp add: sweep_doomed)

lemma tick_found:
  assumes "dateTxt_of (formattedDate env) = Some d"
    and "sweep env (os_ReadDir env) (files w) (artifact d) \<noteq> None" and "\<not> Stat_err env"
  shows "tick env w = (Running, w\<lparr>files := sweep env (os_ReadDir env) (files w)\<rparr>)"
  using assms by (simp add: tick_def prepare_def)

lemma prepare_fetches:
  assumes "dateTxt_of (formattedDate env) = Some d"
    and "sweep env (os_ReadDir env) (files w) (artifact d) = None \<or> Stat_err env"
  shows "prepare env w = Inl (st, w') \<Longrightarrow> gets w' = gets w + 1"
    and "prepare env w = Inr (d', img, w') \<Longrightarrow> gets w' = gets w + 1"
  using assms by (auto simp: prepare_def Let_def split: option.splits go.splits)

lemma tick_fetches:
  assumes "dateTxt_of (formattedDate env) = Some d"
    and "sweep env (os_ReadDir env) (files w) (artifact d) = None \<or> Stat_err env"
  shows "gets (snd (tick env w)) = gets w + 1"
proof (cases "prepare env w")
  case (Inl a)
  then show ?thesis
    using prepare_fetches(1) [OF assms, of "fst a" "snd a"] by (simp add: tick_def)
next
  case (Inr a)
  obtain d' img w1 where a: "a = (d', img, w1)"
    by (cases a)
  have g: "gets w1 = gets w + 1"
    using prepare_fetches(2) [OF assms, of d' img w1] Inr a by simp
  obtain b h' where "tick env w =
      (if Create_err env then (Exited, w1\<lparr>handler := h'\<rparr>)
       else if Encode_err env
         then (Exited, w1\<lparr>handler := h', files := (files w1)(artifact d' \<mapsto> now env)\<rparr>)
         else (Running, w1\<lparr>handler := h'\<lparr>m_locked := False\<rparr>,
                           files := (files w1)(artifact d' \<mapsto> now env)\<rparr>))"
    using tick_Inr [of env w d' img w1] Inr a by auto
  then show ?thesis
    using g by simp
qed

lemma tick_bad_status:
  assumes "dateTxt_of (formattedDate env) = Some d"
    and "sweep env (os_ReadDir env) (files w) (artifact d) = None \<or> Stat_err env"
    and "http_Get env (radar_url d) = (Some resp, err)" and "err \<or> StatusCode resp \<noteq> 200"
  shows "tick env w = (Running, w\<lparr>files := sweep env (os_ReadDir env) (files w), gets := gets w + 1\<rparr>)"
  using assms by (auto simp: tick_def prepare_def downloadRadar_def Let_def)

subsection \<open>Passes on the concrete images\<close>

lemma avg_olive: "getAvgColor (Clone olive) 4 4 = Some (128, 128, 0)"
  by code_simp

lemma project_hradec_named:
  "project impl (lonPixelSize (Clone olive)) (latPixelSize (Clone olive))
     (Fin hradec_lat) (Fin hradec_lon) = (4, 4)"
  unfolding hradec_lat_def hradec_lon_def by (rule project_hradec)

lemma rains_hradec: "\<not> rains impl (Clone olive) (handler world0) 0"
  by (simp add: rains_def sampled_def loop_at_def world0_def start_def LoadCities_def hradec_def
      project_hradec_named avg_olive)

lemma avg_blue: "getAvgColor (Clone blue) 4 4 = Some (0, 0, 255)"
  by code_simp

lemma pixel_sizes_blue:
  "lonPixelSize (Clone blue) = lonPixelSize (Clone olive)"
  "latPixelSize (Clone blue) = latPixelSize (Clone olive)"
  by (simp_all add: lonPixelSize_def latPixelSize_def Dx_def Dy_def Clone_def blue_def olive_def)

lemma sampled_blue: "sampled impl (Clone blue) (handler world0) 0 = Some (0, 0, 255)"
  by (simp add: sampled_def loop_at_def world0_def start_def LoadCities_def hradec_def
      pixel_sizes_blue project_hradec_named avg_blue)

lemma classify_all_blue:
  "\<exists>b. classify_all impl (Clone blue) (handler world0)
     = Result (b, \<lparr>m_locked = True, Cities = [hradec_blue], CitiesWithRain = [0]\<rparr>)"
proof -
  obtain b hn where cl: "classify_all impl (Clone blue) (handler world0) = Result (b, hn)"
    and inv: "loop_inv impl (Clone blue) (handler world0) (length (Cities (handler world0))) b hn"
    using classify_all_inv [OF Clone_wf] by blast
  have len: "length (Cities (handler world0)) = 1"
    and c0: "Cities (handler world0) ! 0 = hradec_blue\<lparr>B := 0\<rparr>"
    by (simp_all add: world0_def start_def LoadCities_def hradec_def hradec_blue_def)
  have rains: "rains impl (Clone blue) (handler world0) 0"
    by (simp add: rains_def sampled_blue)
  have "m_locked hn" and "length (Cities hn) = 1" and "CitiesWithRain hn = [0]"
    and "Cities hn ! 0 = hradec_blue"
    using inv rains by (simp_all add: loop_inv_def len c0 sampled_blue paint_def hradec_blue_def)
  then have "hn = \<lparr>m_locked = True, Cities = [hradec_blue], CitiesWithRain = [0]\<rparr>"
    by (cases hn) (auto simp: length_Suc_conv)
  with cl show ?thesis by blast
qed

lemma prepare_env_blue: "prepare env_blue world0 = Inr (''20240101.1200'', blue, world0\<lparr>gets := 1\<rparr>)"
  by (simp add: prepare_def env_blue_def env_ok_def world0_def start_def dateTxt_of_def format_def
      downloadRadar_def artifact_def)

lemma tick_env_blue: "tick env_blue world0 = (Running, world_blue)"
proof -
  obtain b where cl: "classify_all (f2i env_blue) (Clone blue) (handler world0)
     = Result (b, \<lparr>m_locked = True, Cities = [hradec_blue], CitiesWithRain = [0]\<rparr>)"
    using classify_all_blue by blast
  have h: "handler (world0\<lparr>gets := 1\<rparr>) = handler world0"
    by simp
  have e: "\<not> Create_err env_blue" "\<not> Encode_err env_blue" "now env_blue = 1704110820000000000"
    by (simp_all add: env_blue_def env_ok_def)
  have "tick env_blue world0 =
      (Running, world0\<lparr>gets := 1, files := (files world0)(artifact ''20240101.1200'' \<mapsto> 1704110820000000000),
         handler := \<lparr>m_locked = False, Cities = [hradec_blue], CitiesWithRain = [0]\<rparr>\<rparr>)"
    by (simp add: tick_def prepare_env_blue h cl e Let_def)
  then show ?thesis
    by (simp add: world_blue_def world0_def start_def)
qed

lemma avg_black: "getAvgColor (Clone black) 4 4 = Some (0, 0, 0)"
  by code_simp

lemma pixel_sizes_black:
  "lonPixelSize (Clone black) = lonPixelSize (Clone olive)"
  "latPixelSize (Clone black) = latPixelSize (Clone olive)"
  by (simp_all add: lonPixelSize_def latPixelSize_def Dx_def Dy_def Clone_def black_def olive_def)

lemma dry_hradec: "\<not> rains impl (Clone black) (handler world_blue) 0"
  by (simp add: rains_def sampled_def loop_at_def world_blue_def hradec_blue_def
      pixel_sizes_black project_hradec_named avg_black)

lemma prepare_env_dry: "prepare env_dry world_blue = Inr (''20240101.1210'', black, world_blue\<lparr>gets := 2\<rparr>)"
  by (simp add: prepare_def env_dry_def env_ok_def world_blue_def dateTxt_of_def format_def
      downloadRadar_def artifact_def)

section \<open>The classification rule\<close>

text \<open>
  C1 (the code departs from it). A point is to be raining exactly when the averaged
  colour is not black. The test \<^verbatim>\<open>r+g+b > 0\<close> adds three \<^verbatim>\<open>uint8\<close> values and the sum
  wraps around at 256. On a 9 by 9 image that is uniformly (128, 128, 0), Hradec Kralove
  (50.2104 N, 15.8252 E) projects to the pixel (4, 4), the average there is (128, 128, 0), far from black, its
  integer sum is 256, the test of the loop body is false, and the pass publishes an
  empty list.
\<close>

theorem raining_test_wraps:
  "f64_round (502104 / 10000) = Fin hradec_lat \<and> f64_round (158252 / 10000) = Fin hradec_lon
   \<and> project (f2i env_ok) (lonPixelSize (Clone olive)) (latPixelSize (Clone olive))
       (Fin hradec_lat) (Fin hradec_lon) = (4, 4)
   \<and> getAvgColor (Clone olive) 4 4 = Some (128, 128, 0)
   \<and> \<not> (0 < (128 :: 8 word) + 128 + 0)
   \<and> 0 < unat (128 :: 8 word) + unat (128 :: 8 word) + unat (0 :: 8 word)
   \<and> fst (tick env_ok world0) = Running
   \<and> HandleGet (handler (snd (tick env_ok world0))) = []"
proof -
  obtain b h' where inv: "loop_inv (f2i env_ok) (Clone olive) (handler world0)
      (length (Cities (handler world0))) b h'"
    and t: "tick env_ok world0 =
      (if Create_err env_ok then (Exited, world0\<lparr>gets := 1, handler := h'\<rparr>)
       else if Encode_err env_ok
         then (Exited, world0\<lparr>gets := 1, handler := h',
                 files := (files (world0\<lparr>gets := 1\<rparr>))(artifact ''20240101.1200'' \<mapsto> now env_ok)\<rparr>)
         else (Running, world0\<lparr>gets := 1, handler := h'\<lparr>m_locked := False\<rparr>,
                 files := (files (world0\<lparr>gets := 1\<rparr>))(artifact ''20240101.1200'' \<mapsto> now env_ok)\<rparr>))"
    using tick_Inr [OF prepare_env_ok] by blast
  have "length (Cities (handler world0)) = 1"
    by (simp add: world0_def start_def LoadCities_def)
  then have "CitiesWithRain h' = []"
    using inv rains_hradec [of "f2i env_ok"] by (simp add: loop_inv_def)
  moreover have "\<not> Create_err env_ok" and "\<not> Encode_err env_ok"
    by (simp_all add: env_ok_def)
  ultimately have "fst (tick env_ok world0) = Running"
    and "HandleGet (handler (snd (tick env_ok world0))) = []"
    by (simp_all add: t HandleGet_def)
  then show ?thesis
    using project_hradec_named [of "f2i env_ok"] avg_olive fl_hradec_lat fl_hradec_lon by simp
qed

section \<open>The projection\<close>

lemma project_prague_rounded:
  "project impl (lonPixelSize raster500) (latPixelSize raster500)
     (f64_round (500877 / 10000)) (f64_round (144213 / 10000)) = (165, 255)"
  unfolding fl_prague_lat fl_prague_lon prague_lat_def prague_lon_def by (rule project_prague)

text \<open>
  C2, as stated, fails: the conversion \<^verbatim>\<open>int(...)\<close> discards the fraction, it does not
  take the floor. West of the image by less than a pixel (latitude 50, longitude 11.25,
  500 by 500 pixels) the program computes column 0 where the formula gives column -1.
\<close>

theorem int_conversion_is_not_floor:
  "project (\<lambda>v. 0) (lonPixelSize raster500) (latPixelSize raster500) (Fin 50) (Fin (45 / 4)) = (0, 266)
   \<and> project_spec 500 500 50 (45 / 4) = (- 1, 266)"
proof -
  have "project_spec 500 500 50 (45 / 4) = (- 1, 266)"
    by (simp add: project_spec_def lon0_def lon1_def lat0_def lat1_def floor_eq_iff)
  then show ?thesis
    using project_west [of "\<lambda>v. 0"] by simp
qed

text \<open>
  C2, amended. The projector computes, in float64 arithmetic, the quotients
  \<open>(lon - west) / lonPixelSize\<close> and \<open>(north - lat) / latPixelSize\<close> and discards their
  fractions: whenever the quotients are finite and within the 64-bit range, \<open>x\<close> and \<open>y\<close>
  are their floors where they are not negative and their ceilings where they are. With
  the stated bounds and a 500 by 500 raster, the point (50.0877, 14.4213) projects to
  exactly (165, 255), which is also what the formula gives in exact arithmetic.
\<close>

theorem project_truncates:
  assumes "f64_div (f64_sub lon (f64_round lon0)) (lonPixelSize bitmap) = Fin x"
    and "f64_div (f64_sub (f64_round lat0) lat) (latPixelSize bitmap) = Fin y"
    and "- (2 ^ 63) < x" and "x < 2 ^ 63" and "- (2 ^ 63) < y" and "y < 2 ^ 63"
  shows "project impl (lonPixelSize bitmap) (latPixelSize bitmap) lat lon =
      (if 0 \<le> x then \<lfloor>x\<rfloor> else \<lceil>x\<rceil>, if 0 \<le> y then \<lfloor>y\<rfloor> else \<lceil>y\<rceil>)
    \<and> project impl (lonPixelSize raster500) (latPixelSize raster500)
        (f64_round (500877 / 10000)) (f64_round (144213 / 10000)) = (165, 255)
    \<and> project_spec 500 500 (500877 / 10000) (144213 / 10000) = (165, 255)"
proof (intro conjI)
  show "project impl (lonPixelSize bitmap) (latPixelSize bitmap) lat lon =
      (if 0 \<le> x then \<lfloor>x\<rfloor> else \<lceil>x\<rceil>, if 0 \<le> y then \<lfloor>y\<rfloor> else \<lceil>y\<rceil>)"
    using f64_to_int_Fin [OF assms(3,4), of impl] f64_to_int_Fin [OF assms(5,6), of impl]
    by (simp add: project_def Let_def assms(1,2) rat_trunc_def)
  show "project impl (lonPixelSize raster500) (latPixelSize raster500)
        (f64_round (500877 / 10000)) (f64_round (144213 / 10000)) = (165, 255)"
    by (rule project_prague_rounded)
  show "project_spec 500 500 (500877 / 10000) (144213 / 10000) = (165, 255)"
    by (simp add: project_spec_def lon0_def lon1_def lat0_def lat1_def floor_eq_iff)
qed

theorem project_truncates_witness:
  "f64_div (f64_sub (Fin (45 / 4)) (f64_round lon0)) (lonPixelSize raster500) = Fin ((- (4109837430582105 / 4503599627370496)))
   \<and> f64_div (f64_sub (f64_round lat0) (Fin 50)) (latPixelSize raster500) = Fin (4686852277277147 / 17592186044416)
   \<and> project (\<lambda>v. 0) (lonPixelSize raster500) (latPixelSize raster500) (Fin 50) (Fin (45 / 4)) =
       (\<lceil>(- (4109837430582105 / 4503599627370496)) :: rat\<rceil>, \<lfloor>4686852277277147 / 17592186044416 :: rat\<rfloor>)"
proof -
  have x: "f64_div (f64_sub (Fin (45 / 4)) (f64_round lon0)) (lonPixelSize raster500) = Fin ((- (4109837430582105 / 4503599627370496)))"
    unfolding west_a lonPixelSize_raster500 by (rule west_qx)
  have y: "f64_div (f64_sub (f64_round lat0) (Fin 50)) (latPixelSize raster500) = Fin (4686852277277147 / 17592186044416)"
    unfolding west_b latPixelSize_raster500 by (rule west_qy)
  show ?thesis
    using project_truncates [OF x y, of "\<lambda>v. 0"] x y by simp
qed

text \<open>
  C6, as stated, fails on two edges. A city whose latitude is written as the southern
  bound, 48.1, is read as the float64 nearest to it, and on a raster 528 pixels high
  its row is 528, one below the last. A city whose longitude is written as the eastern
  bound, 20.7703153, is read likewise, and on a raster 728 pixels wide its column is
  728, one right of the last.
\<close>

theorem edges_leave_raster:
  "f64_round lat1 = Fin lat1_f \<and> lat1 \<le> lat1_f \<and> lat1_f \<le> lat0 \<and> lon0 \<le> 29 / 2 \<and> 29 / 2 \<le> lon1
   \<and> Dy (Rect raster728) = 528
   \<and> snd (project (\<lambda>v. 0) (lonPixelSize raster728) (latPixelSize raster728)
        (f64_round lat1) (Fin (29 / 2))) = 528
   \<and> f64_round lon1 = Fin lon1_f \<and> lat1 \<le> 50 \<and> 50 \<le> lat0
   \<and> Dx (Rect raster728) = 728
   \<and> fst (project (\<lambda>v. 0) (lonPixelSize raster728) (latPixelSize raster728)
        (Fin 50) (f64_round lon1)) = 728"
proof -
  have "snd (project (\<lambda>v. 0) (lonPixelSize raster728) (latPixelSize raster728)
        (Fin lat1_f) (Fin (29 / 2))) = 528"
    unfolding lat1_f_def using project_south [of "\<lambda>v. 0"] by simp
  moreover have "fst (project (\<lambda>v. 0) (lonPixelSize raster728) (latPixelSize raster728)
        (Fin 50) (Fin lon1_f)) = 728"
    unfolding lon1_f_def using project_east [of "\<lambda>v. 0"] by simp
  moreover have "lat1 \<le> lat1_f" "lat1_f \<le> lat0" "lon0 \<le> 29 / 2" "29 / 2 \<le> lon1"
    "lat1 \<le> 50" "50 \<le> lat0"
    by (simp_all add: lat1_f_def lat1_def lat0_def lon0_def lon1_def)
  ultimately show ?thesis
    by (simp only: fl_lat1 fl_lon1 Dx_raster728 Dy_raster728 simp_thms)
qed

text \<open>
  C6, amended. Take the bounds as the program reads them: the eastern bound is the
  float64 \<open>lon1_f\<close> and the northern bound the float64 \<open>lat0_f\<close>, both just above their
  decimals (lemmas \<open>fl_lon1\<close>, \<open>fl_lat0\<close>), and \<open>lat1_f\<close> is the float64 of the southern
  bound. For every float64 longitude from the western bound to \<open>lon1_f\<close> and every
  latitude from the southern bound to \<open>lat0_f\<close>, on a raster of at least one and at most
  \<open>2 ^ 31\<close> pixels each way, the projected \<open>x\<close> lies in \<open>[0, width]\<close> and the projected \<open>y\<close> in
  \<open>[0, height]\<close>; \<open>x\<close> is below the width unless the longitude is \<open>lon1_f\<close> itself, and
  \<open>y\<close> is below the height for every float64 latitude above \<open>lat1_f\<close>. Within the bounds
  the projection is monotonic: a larger longitude never gives a smaller \<open>x\<close>, a larger
  latitude never a larger \<open>y\<close>.
\<close>

theorem projection_in_raster:
  assumes "0 < Dx (Rect bitmap)" and "Dx (Rect bitmap) \<le> 2 ^ 31"
    and "0 < Dy (Rect bitmap)" and "Dy (Rect bitmap) \<le> 2 ^ 31"
    and "is_f64 lon" and "lon0 \<le> lon" and "lon \<le> lon1_f" and "lat1 \<le> lat" and "lat \<le> lat0_f"
    and "is_f64 lon'" and "lon0 \<le> lon'" and "lon' \<le> lon1_f" and "lat1 \<le> lat'" and "lat' \<le> lat0_f"
  shows "0 \<le> fst (project impl (lonPixelSize bitmap) (latPixelSize bitmap) (Fin lat) (Fin lon))
    \<and> fst (project impl (lonPixelSize bitmap) (latPixelSize bitmap) (Fin lat) (Fin lon)) \<le> Dx (Rect bitmap)
    \<and> (lon < lon1_f \<longrightarrow>
          fst (project impl (lonPixelSize bitmap) (latPixelSize bitmap) (Fin lat) (Fin lon)) < Dx (Rect bitmap))
    \<and> 0 \<le> snd (project impl (lonPixelSize bitmap) (latPixelSize bitmap) (Fin lat) (Fin lon))
    \<and> snd (project impl (lonPixelSize bitmap) (latPixelSize bitmap) (Fin lat) (Fin lon)) \<le> Dy (Rect bitmap)
    \<and> (is_f64 lat \<and> lat1_f < lat \<longrightarrow>
          snd (project impl (lonPixelSize bitmap) (latPixelSize bitmap) (Fin lat) (Fin lon)) < Dy (Rect bitmap))
    \<and> (lon \<le> lon' \<longrightarrow>
          fst (project impl (lonPixelSize bitmap) (latPixelSize bitmap) (Fin lat) (Fin lon))
          \<le> fst (project impl (lonPixelSize bitmap) (latPixelSize bitmap) (Fin lat) (Fin lon')))
    \<and> (lat \<le> lat' \<longrightarrow>
          snd (project impl (lonPixelSize bitmap) (latPixelSize bitmap) (Fin lat') (Fin lon))
          \<le> snd (project impl (lonPixelSize bitmap) (latPixelSize bitmap) (Fin lat) (Fin lon)))"
proof -
  note x = project_x [OF assms(1,2,5,6,7)] and y = project_y [OF assms(3,4,8,9)]
  note cx = column_of [OF assms(1,2,5,6,7)] and cx' = column_of [OF assms(1,2,10,11,12)]
  note ry = row_of [OF assms(3,4,8,9)] and ry' = row_of [OF assms(3,4,13,14)]
  have "qx (Dx (Rect bitmap)) lon < of_int (Dx (Rect bitmap) + 1)"
    using x(3) by simp
  then have "\<lfloor>qx (Dx (Rect bitmap)) lon\<rfloor> < Dx (Rect bitmap) + 1"
    by (simp only: floor_less_iff)
  then have x_hi: "\<lfloor>qx (Dx (Rect bitmap)) lon\<rfloor> \<le> Dx (Rect bitmap)"
    by simp
  have x_in: "\<lfloor>qx (Dx (Rect bitmap)) lon\<rfloor> < Dx (Rect bitmap)" if "lon < lon1_f"
    using x(4) [OF that] by (simp only: floor_less_iff)
  have "qy (Dy (Rect bitmap)) lat < of_int (Dy (Rect bitmap) + 1)"
    using y(3) by simp
  then have "\<lfloor>qy (Dy (Rect bitmap)) lat\<rfloor> < Dy (Rect bitmap) + 1"
    by (simp only: floor_less_iff)
  then have y_hi: "\<lfloor>qy (Dy (Rect bitmap)) lat\<rfloor> \<le> Dy (Rect bitmap)"
    by simp
  have y_in: "\<lfloor>qy (Dy (Rect bitmap)) lat\<rfloor> < Dy (Rect bitmap)" if "is_f64 lat" and "lat1_f < lat"
    using y(4) [OF that] by (simp only: floor_less_iff)
  have mono_x: "\<lfloor>qx (Dx (Rect bitmap)) lon\<rfloor> \<le> \<lfloor>qx (Dx (Rect bitmap)) lon'\<rfloor>" if "lon \<le> lon'"
    using qx_mono [OF assms(1,2) lon_ge_grid [OF assms(5,6)] that] by (rule floor_mono)
  have mono_y: "\<lfloor>qy (Dy (Rect bitmap)) lat'\<rfloor> \<le> \<lfloor>qy (Dy (Rect bitmap)) lat\<rfloor>" if "lat \<le> lat'"
    using qy_antimono [OF assms(3,4) that assms(14)] by (rule floor_mono)
  show ?thesis
    unfolding cx cx' ry ry' using x(2) y(2) x_hi y_hi x_in y_in mono_x mono_y by simp
qed

theorem projection_in_raster_witness:
  "is_f64 prague_lon \<and> lon0 \<le> prague_lon \<and> prague_lon < lon1_f
   \<and> is_f64 prague_lat \<and> lat1_f < prague_lat \<and> prague_lat \<le> lat0_f
   \<and> is_f64 lon1_f \<and> prague_lon \<le> lon1_f \<and> prague_lat \<le> 51
   \<and> fst (project (\<lambda>v. 0) (lonPixelSize raster500) (latPixelSize raster500) (Fin prague_lat) (Fin prague_lon)) < 500
   \<and> snd (project (\<lambda>v. 0) (lonPixelSize raster500) (latPixelSize raster500) (Fin prague_lat) (Fin prague_lon)) < 500
   \<and> fst (project (\<lambda>v. 0) (lonPixelSize raster500) (latPixelSize raster500) (Fin prague_lat) (Fin prague_lon))
       \<le> fst (project (\<lambda>v. 0) (lonPixelSize raster500) (latPixelSize raster500) (Fin prague_lat) (Fin lon1_f))
   \<and> fst (project (\<lambda>v. 0) (lonPixelSize raster500) (latPixelSize raster500) (Fin prague_lat) (Fin lon1_f)) \<le> 500
   \<and> snd (project (\<lambda>v. 0) (lonPixelSize raster500) (latPixelSize raster500) (Fin 51) (Fin prague_lon))
       \<le> snd (project (\<lambda>v. 0) (lonPixelSize raster500) (latPixelSize raster500) (Fin prague_lat) (Fin prague_lon))"
proof -
  have b: "lon0 \<le> prague_lon" "prague_lon \<le> lon1_f" "lat1 \<le> prague_lat" "prague_lat \<le> lat0_f"
    "lon0 \<le> lon1_f" "lon1_f \<le> lon1_f" "lat1 \<le> 51" "51 \<le> lat0_f" "prague_lon \<le> lon1_f" "prague_lat \<le> 51"
    and s: "prague_lon < lon1_f" "lat1_f < prague_lat"
    by (simp_all add: prague_lon_def prague_lat_def lon0_def lon1_f_def lat0_f_def lat1_def lat1_f_def)
  have d: "0 < Dx (Rect raster500)" "Dx (Rect raster500) \<le> 2 ^ 31"
    "0 < Dy (Rect raster500)" "Dy (Rect raster500) \<le> 2 ^ 31"
    by (simp_all add: Dx_raster500 Dy_raster500)
  show ?thesis
    using projection_in_raster [OF d is_f64_prague_lon b(1,2,3,4) is_f64_lon1_f b(5,6,7,8), of "\<lambda>v. 0"]
      projection_in_raster [OF d is_f64_lon1_f b(5,6,3,4) is_f64_lon1_f b(5,6,7,8), of "\<lambda>v. 0"]
      b s is_f64_prague_lon is_f64_prague_lat is_f64_lon1_f
    by (simp add: Dx_raster500 Dy_raster500)
qed

subsection \<open>A download that fails\<close>

text \<open>
  C3 (the code departs from it). A failed download is to end the pass with the published
  list as it was. When \<^verbatim>\<open>http.Get\<close> fails in transport it answers a nil response, and
  the log line of the failure branch reads \<^verbatim>\<open>resp.StatusCode\<close>: the pass does not end,
  the process panics.
\<close>

theorem transport_error_panics:
  "http_Get env_neterr (radar_url ''20240101.1200'') = (None, True)
   \<and> downloadRadar env_neterr ''20240101.1200'' = Panic
   \<and> fst (tick env_neterr world0) = Panicked"
  by (simp add: tick_def prepare_def env_neterr_def env_ok_def world0_def start_def
      dateTxt_of_def format_def downloadRadar_def artifact_def)

text \<open>With a response at hand (any status but 200) the pass ends and the list is kept.\<close>

lemma bad_status_keeps_snapshot:
  assumes "dateTxt_of (formattedDate env) = Some d"
    and "http_Get env (radar_url d) = (Some resp, err)" and "err \<or> StatusCode resp \<noteq> 200"
  shows "fst (tick env w) = Running \<and> handler (snd (tick env w)) = handler w"
  using assms by (auto simp: tick_def prepare_def downloadRadar_def Let_def)

subsection \<open>Two passes in the same ten minutes\<close>

text \<open>
  C4, as stated, fails. Nothing is written when the download fails, so the next pass of
  the same ten minutes downloads again: two passes, two requests. And the old files are
  deleted before the file of the ten minutes is looked up, so a file of the current ten
  minutes whose modification time lies an hour back is deleted and downloaded again.
\<close>

theorem failed_fetch_is_retried:
  "dateTxt_of (formattedDate env_404) = Some ''20240101.1200''
   \<and> fst (run [env_404, env_404] world0) = Running
   \<and> gets (snd (run [env_404, env_404] world0)) = 2
   \<and> dateTxt_of (formattedDate env_aged) = Some ''20240101.1200''
   \<and> files world_aged (artifact ''20240101.1200'') = Some 1704107160000000000
   \<and> \<not> Stat_err env_aged \<and> gets world_aged = 0
   \<and> gets (snd (tick env_aged world_aged)) = 1"
proof -
  have "dateTxt_of (formattedDate env_404) = Some ''20240101.1200''
   \<and> fst (run [env_404, env_404] world0) = Running
   \<and> gets (snd (run [env_404, env_404] world0)) = 2"
    by (simp add: tick_def prepare_def env_404_def env_ok_def world0_def start_def
      dateTxt_of_def format_def downloadRadar_def artifact_def)
  moreover have d: "dateTxt_of (formattedDate env_aged) = Some ''20240101.1200''"
    by (simp add: env_aged_def env_listing_def env_ok_def dateTxt_of_def format_def)
  moreover have "sweep env_aged (os_ReadDir env_aged) (files world_aged) (artifact ''20240101.1200'') = None"
    by (simp add: sweep_doomed doomed_def env_aged_def env_listing_def env_ok_def world_aged_def
        start_def artifact_def HasPrefix_def Hour_def)
  then have "gets (snd (tick env_aged world_aged)) = gets world_aged + 1"
    using tick_fetches [OF d] by simp
  moreover have "files world_aged (artifact ''20240101.1200'') = Some 1704107160000000000"
    "\<not> Stat_err env_aged" "gets world_aged = 0"
    by (simp_all add: world_aged_def start_def env_aged_def env_listing_def env_ok_def)
  ultimately show ?thesis
    by simp
qed

text \<open>
  C4, amended. A pass issues no request and computes nothing exactly when, after the
  deletion of the old files in that pass, \<^verbatim>\<open>os.Stat\<close> finds the file of the ten minutes:
  the file is still there and the call reports no error. In every other case the pass
  issues one request. So when the first of two passes for the same ten-minute name
  downloads, decodes and writes its image, and the second runs less than an hour later
  by the clock with \<^verbatim>\<open>os.Stat\<close> succeeding, the two passes issue exactly one request and
  the published list is the one of the first pass. When the file does not exist and
  the download answers a response with a bad status or an error, the pass writes nothing
  and keeps the list, and the next pass for the same name issues a second request.
\<close>

theorem second_pass_skips:
  assumes "dateTxt_of (formattedDate env2) = Some d"
  shows "(sweep env2 (os_ReadDir env2) (files v) (artifact d) \<noteq> None \<and> \<not> Stat_err env2 \<longrightarrow>
        tick env2 v = (Running, v\<lparr>files := sweep env2 (os_ReadDir env2) (files v)\<rparr>))
    \<and> (sweep env2 (os_ReadDir env2) (files v) (artifact d) = None \<or> Stat_err env2 \<longrightarrow>
        gets (snd (tick env2 v)) = gets v + 1)
    \<and> (prepare env1 w = Inr (d, img, w1) \<and> \<not> Create_err env1 \<and> \<not> Encode_err env1
         \<and> now env2 - now env1 < Hour \<and> \<not> Stat_err env2 \<longrightarrow>
        fst (run [env1, env2] w) = Running
        \<and> gets (snd (run [env1, env2] w)) = gets w + 1
        \<and> handler (snd (run [env1, env2] w)) = handler (snd (tick env1 w)))
    \<and> (dateTxt_of (formattedDate env1) = Some d \<and> files w (artifact d) = None
         \<and> http_Get env1 (radar_url d) = (Some resp, err) \<and> (err \<or> StatusCode resp \<noteq> 200) \<longrightarrow>
        tick env1 w = (Running, w\<lparr>files := sweep env1 (os_ReadDir env1) (files w), gets := gets w + 1\<rparr>)
        \<and> gets (snd (run [env1, env2] w)) = gets w + 2)"
proof (intro conjI impI)
  assume "sweep env2 (os_ReadDir env2) (files v) (artifact d) \<noteq> None \<and> \<not> Stat_err env2"
  then show "tick env2 v = (Running, v\<lparr>files := sweep env2 (os_ReadDir env2) (files v)\<rparr>)"
    using tick_found [OF assms] by simp
next
  assume "sweep env2 (os_ReadDir env2) (files v) (artifact d) = None \<or> Stat_err env2"
  then show "gets (snd (tick env2 v)) = gets v + 1"
    by (rule tick_fetches [OF assms])
next
  assume a: "prepare env1 w = Inr (d, img, w1) \<and> \<not> Create_err env1 \<and> \<not> Encode_err env1
         \<and> now env2 - now env1 < Hour \<and> \<not> Stat_err env2"
  then have p: "prepare env1 w = Inr (d, img, w1)"
    by simp
  obtain h' where t1: "tick env1 w =
      (Running, w1\<lparr>handler := h'\<lparr>m_locked := False\<rparr>,
                   files := (files w1)(artifact d \<mapsto> now env1)\<rparr>)"
    using tick_Inr [OF p] a by auto
  define w' where "w' = w1\<lparr>handler := h'\<lparr>m_locked := False\<rparr>,
                   files := (files w1)(artifact d \<mapsto> now env1)\<rparr>"
  have g: "gets w' = gets w + 1"
    using prepare_Inr(2) [OF p] by (simp add: w'_def)
  have f: "files w' (artifact d) = Some (now env1)"
    by (simp add: w'_def)
  have t2: "tick env2 w' = (Running, w'\<lparr>files := sweep env2 (os_ReadDir env2) (files w')\<rparr>)"
    using tick_skip [OF assms f] a by simp
  show "fst (run [env1, env2] w) = Running"
    and "gets (snd (run [env1, env2] w)) = gets w + 1"
    and "handler (snd (run [env1, env2] w)) = handler (snd (tick env1 w))"
    using t1 t2 g by (simp_all add: w'_def [symmetric])
next
  assume a: "dateTxt_of (formattedDate env1) = Some d \<and> files w (artifact d) = None
         \<and> http_Get env1 (radar_url d) = (Some resp, err) \<and> (err \<or> StatusCode resp \<noteq> 200)"
  have s1: "sweep env1 (os_ReadDir env1) (files w) (artifact d) = None"
    using a by (simp add: sweep_absent)
  show t1: "tick env1 w = (Running, w\<lparr>files := sweep env1 (os_ReadDir env1) (files w), gets := gets w + 1\<rparr>)"
    using tick_bad_status [of env1 d w resp err] a s1 by simp
  define w' where "w' = w\<lparr>files := sweep env1 (os_ReadDir env1) (files w), gets := gets w + 1\<rparr>"
  have "sweep env2 (os_ReadDir env2) (files w') (artifact d) = None"
    using s1 by (simp add: w'_def sweep_absent)
  then have "gets (snd (tick env2 w')) = gets w' + 1"
    using tick_fetches [OF assms] by simp
  moreover have "run [env1, env2] w = tick env2 w'"
    using run_Running [OF t1] by (simp only: run_single w'_def)
  ultimately show "gets (snd (run [env1, env2] w)) = gets w + 2"
    by (simp add: w'_def)
qed

theorem second_pass_skips_witness:
  "dateTxt_of (formattedDate env_next) = Some ''20240101.1200''
   \<and> prepare env_ok world0 = Inr (''20240101.1200'', olive, world0\<lparr>gets := 1\<rparr>)
   \<and> now env_next - now env_ok < Hour \<and> \<not> Stat_err env_next
   \<and> fst (run [env_ok, env_next] world0) = Running
   \<and> gets (snd (run [env_ok, env_next] world0)) = 1
   \<and> handler (snd (run [env_ok, env_next] world0)) = handler (snd (tick env_ok world0))
   \<and> dateTxt_of (formattedDate env_404) = Some ''20240101.1200''
   \<and> files world0 (artifact ''20240101.1200'') = None
   \<and> http_Get env_404 (radar_url ''20240101.1200'') = (Some \<lparr>StatusCode = 404, Body = []\<rparr>, False)
   \<and> tick env_404 world0 = (Running, world0\<lparr>gets := 1\<rparr>)
   \<and> gets (snd (tick env_404 (world0\<lparr>gets := 1\<rparr>))) = 2"
proof -
  have n: "dateTxt_of (formattedDate env_next) = Some ''20240101.1200''"
    and f: "dateTxt_of (formattedDate env_404) = Some ''20240101.1200''"
    by (simp_all add: env_next_def env_404_def env_ok_def dateTxt_of_def format_def)
  have e: "now env_next - now env_ok < Hour" "\<not> Create_err env_ok" "\<not> Encode_err env_ok"
    "\<not> Stat_err env_next" "gets world0 = 0" "files world0 (artifact ''20240101.1200'') = None"
    "http_Get env_404 (radar_url ''20240101.1200'') = (Some \<lparr>StatusCode = 404, Body = []\<rparr>, False)"
    "sweep env_404 (os_ReadDir env_404) (files world0) = files world0"
    "sweep env_404 (os_ReadDir env_404) (files (world0\<lparr>gets := 1\<rparr>)) (artifact ''20240101.1200'') = None"
    by (simp_all add: env_next_def env_404_def env_ok_def Hour_def world0_def start_def)
  show ?thesis
    using second_pass_skips [OF n, of world0 env_ok world0 olive "world0\<lparr>gets := 1\<rparr>"
        "\<lparr>StatusCode = 404, Body = []\<rparr>" False]
      second_pass_skips [OF f, of "world0\<lparr>gets := 1\<rparr>" env_404 world0 olive "world0\<lparr>gets := 1\<rparr>"
        "\<lparr>StatusCode = 404, Body = []\<rparr>" False]
      prepare_env_ok n f e
    by simp
qed

subsection \<open>A failure to write the image\<close>

text \<open>
  C7, as stated, fails: a failure of \<^verbatim>\<open>os.Create\<close> goes to \<^verbatim>\<open>log.Fatal\<close>, and the
  process ends instead of going on to the next pass.
\<close>

theorem create_failure_exits:
  "Create_err env_nocreate \<and> fst (tick env_nocreate world0) = Exited"
proof -
  have p: "prepare env_nocreate world0 = Inr (''20240101.1200'', olive, world0\<lparr>gets := 1\<rparr>)"
    by (simp add: prepare_def env_nocreate_def env_ok_def world0_def start_def dateTxt_of_def
        format_def downloadRadar_def artifact_def)
  show ?thesis
    using tick_Inr [OF p] by (auto simp: env_nocreate_def env_ok_def)
qed

text \<open>
  C7, amended. When the image cannot be created or encoded, the failure is logged and the
  process ends: the list computed in that pass is in the handler, but the mutex is still
  locked for writing and no reader is served from it.
\<close>

theorem persist_failure_exits:
  assumes "prepare env w = Inr (d, img, w1)" and "Create_err env \<or> Encode_err env"
  shows "fst (tick env w) = Exited
    \<and> m_locked (handler (snd (tick env w)))
    \<and> CitiesWithRain (handler (snd (tick env w))) =
        filter (rains (f2i env) (Clone img) (handler w)) [0..<length (Cities (handler w))]"
proof -
  obtain b h' where inv: "loop_inv (f2i env) (Clone img) (handler w) (length (Cities (handler w))) b h'"
    and t: "tick env w =
      (if Create_err env then (Exited, w1\<lparr>handler := h'\<rparr>)
       else if Encode_err env
         then (Exited, w1\<lparr>handler := h', files := (files w1)(artifact d \<mapsto> now env)\<rparr>)
         else (Running, w1\<lparr>handler := h'\<lparr>m_locked := False\<rparr>,
                           files := (files w1)(artifact d \<mapsto> now env)\<rparr>))"
    using tick_Inr [OF assms(1)] by blast
  show ?thesis
    using assms(2) inv by (auto simp: t loop_inv_def)
qed

theorem persist_failure_exits_witness:
  "prepare env_nocreate world0 = Inr (''20240101.1200'', olive, world0\<lparr>gets := 1\<rparr>)
   \<and> Create_err env_nocreate
   \<and> fst (tick env_nocreate world0) = Exited
   \<and> m_locked (handler (snd (tick env_nocreate world0)))"
proof -
  have p: "prepare env_nocreate world0 = Inr (''20240101.1200'', olive, world0\<lparr>gets := 1\<rparr>)"
    by (simp add: prepare_def env_nocreate_def env_ok_def world0_def start_def dateTxt_of_def
        format_def downloadRadar_def artifact_def)
  have c: "Create_err env_nocreate"
    by (simp add: env_nocreate_def)
  show ?thesis
    using persist_failure_exits [OF p] p c by simp
qed

subsection \<open>The janitor\<close>

text \<open>
  C8, as stated, fails at the boundary: a file modified exactly one hour ago does not
  exceed the retention, and is deleted.
\<close>

theorem sweep_at_one_hour:
  "files world0 = Map.empty
   \<and> now (env_listing [''radar_a_mesta_20240101.1100.png'']) - 1704107220000000000 = Hour
   \<and> \<not> Hour < now (env_listing [''radar_a_mesta_20240101.1100.png'']) - 1704107220000000000
   \<and> sweep (env_listing [''radar_a_mesta_20240101.1100.png''])
        [''radar_a_mesta_20240101.1100.png''] old_file ''radar_a_mesta_20240101.1100.png'' = None"
  by (simp add: env_listing_def env_ok_def old_file_def Hour_def HasPrefix_def world0_def start_def)

text \<open>
  C8, amended. The janitor deletes exactly the listed files with the artifact prefix whose
  modification time lies one hour or more in the past and whose \<^verbatim>\<open>Info\<close> and \<^verbatim>\<open>Remove\<close>
  succeed; a failure on one file leaves that file and changes nothing for the others. It
  runs in every pass, whatever the pass does afterwards, and before the look-up of the
  ten-minute file: when it has deleted that file, the pass downloads.
\<close>

theorem janitor_deletes_old:
  "sweep env names fs n =
     (if n \<in> set names \<and> HasPrefix n ''radar_a_mesta_'' \<and> \<not> Info_err env n \<and> \<not> Remove_err env n
         \<and> (case fs n of None \<Rightarrow> False | Some t \<Rightarrow> Hour \<le> now env - t)
      then None else fs n)
   \<and> ((case dateTxt_of (formattedDate env) of None \<Rightarrow> True | Some d \<Rightarrow> n \<noteq> artifact d) \<longrightarrow>
        files (snd (tick env w)) n = sweep env (os_ReadDir env) (files w) n)
   \<and> (\<forall>d. dateTxt_of (formattedDate env) = Some d \<longrightarrow>
          sweep env (os_ReadDir env) (files w) (artifact d) = None \<longrightarrow>
          gets (snd (tick env w)) = gets w + 1)"
proof (intro conjI impI allI)
  show "sweep env names fs n =
     (if n \<in> set names \<and> HasPrefix n ''radar_a_mesta_'' \<and> \<not> Info_err env n \<and> \<not> Remove_err env n
         \<and> (case fs n of None \<Rightarrow> False | Some t \<Rightarrow> Hour \<le> now env - t)
      then None else fs n)"
    by (simp add: sweep_doomed doomed_def)
next
  assume n: "case dateTxt_of (formattedDate env) of None \<Rightarrow> True | Some d \<Rightarrow> n \<noteq> artifact d"
  show "files (snd (tick env w)) n = sweep env (os_ReadDir env) (files w) n"
  proof (cases "prepare env w")
    case (Inl a)
    then show ?thesis
      by (auto simp: tick_def prepare_def Let_def split: option.splits if_splits go.splits)
  next
    case (Inr a)
    obtain d img w1 where a: "a = (d, img, w1)"
      by (cases a)
    have p: "prepare env w = Inr (d, img, w1)"
      using Inr a by simp
    have "n \<noteq> artifact d"
      using n prepare_Inr(1) [OF p] by simp
    then show ?thesis
      using prepare_Inr(2) [OF p] tick_Inr [OF p] by auto
  qed
next
  fix d
  assume d: "dateTxt_of (formattedDate env) = Some d"
    and gone: "sweep env (os_ReadDir env) (files w) (artifact d) = None"
  show "gets (snd (tick env w)) = gets w + 1"
  proof (cases "prepare env w")
    case (Inl a)
    then show ?thesis
      using d gone by (auto simp: tick_def prepare_def Let_def split: option.splits if_splits go.splits)
  next
    case (Inr a)
    obtain d' img w1 where a: "a = (d', img, w1)"
      by (cases a)
    have p: "prepare env w = Inr (d', img, w1)"
      using Inr a by simp
    show ?thesis
      using prepare_Inr(2) [OF p] tick_Inr [OF p] by auto
  qed
qed

theorem janitor_deletes_old_witness:
  "now env_ok - 1704109020000000000 = 1800 * 1000000000
   \<and> now env_ok - 1704105420000000000 = 5400 * 1000000000
   \<and> sweep env_ok [''radar_a_mesta_20240101.1130.png'', ''radar_a_mesta_20240101.1030.png'']
        two_files ''radar_a_mesta_20240101.1130.png'' = Some 1704109020000000000
   \<and> sweep env_ok [''radar_a_mesta_20240101.1130.png'', ''radar_a_mesta_20240101.1030.png'']
        two_files ''radar_a_mesta_20240101.1030.png'' = None"
  using janitor_deletes_old [of env_ok "[''radar_a_mesta_20240101.1130.png'', ''radar_a_mesta_20240101.1030.png'']"
      two_files "''radar_a_mesta_20240101.1130.png''" world0]
    janitor_deletes_old [of env_ok "[''radar_a_mesta_20240101.1130.png'', ''radar_a_mesta_20240101.1030.png'']"
      two_files "''radar_a_mesta_20240101.1030.png''" world0]
  by (simp add: env_ok_def two_files_def Hour_def HasPrefix_def)

section \<open>What the published list holds\<close>

text \<open>
  C5, as stated, fails after a pass that ends before the loop over the cities. The pass
  of 12:07 on the blue image publishes Hradec Kralove. The pass of 12:17 finds the image
  of 12:10 not yet on the server and classifies no city, and the pass of 12:08 finds the
  file of 12:00 and classifies none either: after each of them the list still holds
  Hradec Kralove, from the earlier pass.
\<close>

theorem stale_list_after_failed_fetch:
  "run [env_blue] world0 = (Running, world_blue)
   \<and> HandleGet (handler world_blue) = [hradec_blue]
   \<and> prepare env_late_404 world_blue = Inl (Running, world_blue\<lparr>gets := 2\<rparr>)
   \<and> run [env_blue, env_late_404] world0 = (Running, world_blue\<lparr>gets := 2\<rparr>)
   \<and> HandleGet (handler (snd (run [env_blue, env_late_404] world0))) = [hradec_blue]
   \<and> prepare env_next world_blue = Inl (Running, world_blue)
   \<and> HandleGet (handler (snd (run [env_blue, env_next] world0))) = [hradec_blue]"
proof -
  have p: "prepare env_late_404 world_blue = Inl (Running, world_blue\<lparr>gets := 2\<rparr>)"
    by (simp add: prepare_def env_late_404_def env_404_def env_ok_def world_blue_def dateTxt_of_def
        format_def downloadRadar_def artifact_def)
  have q: "prepare env_next world_blue = Inl (Running, world_blue)"
    by (simp add: prepare_def env_next_def env_ok_def world_blue_def dateTxt_of_def
        format_def artifact_def)
  have g: "HandleGet (handler world_blue) = [hradec_blue]"
    by (simp add: world_blue_def HandleGet_def)
  have "run [env_blue, env_late_404] world0 = tick env_late_404 world_blue"
    and "run [env_blue, env_next] world0 = tick env_next world_blue"
    using run_Running [OF tick_env_blue] by (simp_all only: run_single)
  then show ?thesis
    using tick_env_blue p q g by (simp add: tick_def)
qed

text \<open>
  C5, amended. After every pass of the loop, from the start of the process on, every
  city that \<^verbatim>\<open>HandleGet\<close> answers has a colour with \<open>r + g + b > 0\<close> over the integers. A
  pass that gets as far as the loop over the cities publishes exactly the positions it
  has classified raining in that pass, in order, each with the colour sampled for it in
  that pass: a city of an earlier list that is classified clear now is not in the new
  one. A pass that ends before the loop (the file of the ten minutes is found, the
  download or the decoding fails) leaves the list of the last pass that reached it.
\<close>

theorem snapshot_only_raining:
  assumes "run envs (start fs records) = (Running, w)" and "tick env w = (st, w')"
  shows "(\<forall>c \<in> set (HandleGet (handler w')). 0 < unat (R c) + unat (G c) + unat (B c))
    \<and> (\<forall>dateTxt img w1. prepare env w = Inr (dateTxt, img, w1) \<longrightarrow>
          CitiesWithRain (handler w') =
            filter (rains (f2i env) (Clone img) (handler w)) [0..<length (Cities (handler w))]
          \<and> (\<forall>i \<in> set (CitiesWithRain (handler w')).
                sampled (f2i env) (Clone img) (handler w) i =
                  Some (R (Cities (handler w') ! i), G (Cities (handler w') ! i), B (Cities (handler w') ! i))))
    \<and> (\<forall>end. prepare env w = Inl end \<longrightarrow> handler w' = handler w)"
proof (intro conjI allI impI)
  have "snapshot_ok (handler w)"
    using run_snapshot_ok [OF start_snapshot_ok, of envs fs records] assms(1) by simp
  then have "snapshot_ok (handler w')"
    using tick_snapshot_ok [of w env] assms(2) by simp
  then show "\<forall>c \<in> set (HandleGet (handler w')). 0 < unat (R c) + unat (G c) + unat (B c)"
    by (auto simp: snapshot_ok_def HandleGet_def colour_sum_def)
next
  fix dateTxt img w1
  assume prep: "prepare env w = Inr (dateTxt, img, w1)"
  have hw: "handler w1 = handler w"
    using prepare_handler(2) [OF prep] .
  obtain b h' where cl: "classify_all (f2i env) (Clone img) (handler w) = Result (b, h')"
    and inv: "loop_inv (f2i env) (Clone img) (handler w) (length (Cities (handler w))) b h'"
    using classify_all_inv [OF Clone_wf] by blast
  have h': "CitiesWithRain (handler w') = CitiesWithRain h'" "Cities (handler w') = Cities h'"
    using assms(2) by (auto simp: tick_def prep hw cl Let_def split: if_splits)
  show "CitiesWithRain (handler w') =
      filter (rains (f2i env) (Clone img) (handler w)) [0..<length (Cities (handler w))]"
    using inv by (simp add: h' loop_inv_def)
  show "\<forall>i \<in> set (CitiesWithRain (handler w')).
      sampled (f2i env) (Clone img) (handler w) i =
        Some (R (Cities (handler w') ! i), G (Cities (handler w') ! i), B (Cities (handler w') ! i))"
  proof
    fix i
    assume "i \<in> set (CitiesWithRain (handler w'))"
    then have i: "i < length (Cities (handler w))" "rains (f2i env) (Clone img) (handler w) i"
      using inv by (simp_all add: h' loop_inv_def)
    obtain r g bl where smp: "sampled (f2i env) (Clone img) (handler w) i = Some (r, g, bl)"
      using i(2) by (auto simp: rains_def split: option.splits)
    have "Cities h' ! i = paint (Cities (handler w) ! i) (r, g, bl)"
      using inv i smp by (simp add: loop_inv_def)
    then show "sampled (f2i env) (Clone img) (handler w) i =
        Some (R (Cities (handler w') ! i), G (Cities (handler w') ! i), B (Cities (handler w') ! i))"
      by (simp add: h' smp paint_def)
  qed
next
  fix "end"
  assume "prepare env w = Inl end"
  then show "handler w' = handler w"
    using prepare_handler(1) [of env w "fst end" "snd end"] assms(2) by (simp add: tick_def)
qed

theorem snapshot_only_raining_witness:
  "run [env_blue] (start Map.empty [hradec]) = (Running, world_blue)
   \<and> HandleGet (handler world_blue) = [hradec_blue]
   \<and> 0 < unat (R hradec_blue) + unat (G hradec_blue) + unat (B hradec_blue)
   \<and> prepare env_dry world_blue = Inr (''20240101.1210'', black, world_blue\<lparr>gets := 2\<rparr>)
   \<and> \<not> rains (f2i env_dry) (Clone black) (handler world_blue) 0
   \<and> HandleGet (handler (snd (tick env_dry world_blue))) = []
   \<and> prepare env_late_404 world_blue = Inl (Running, world_blue\<lparr>gets := 2\<rparr>)
   \<and> HandleGet (handler (snd (tick env_late_404 world_blue))) = [hradec_blue]"
proof -
  have r: "run [env_blue] (start Map.empty [hradec]) = (Running, world_blue)"
    using tick_env_blue by (simp add: world0_def)
  have r0: "run [] (start Map.empty [hradec]) = (Running, world0)"
    by (simp add: world0_def)
  have p: "prepare env_late_404 world_blue = Inl (Running, world_blue\<lparr>gets := 2\<rparr>)"
    by (simp add: prepare_def env_late_404_def env_404_def env_ok_def world_blue_def dateTxt_of_def
        format_def downloadRadar_def artifact_def)
  have g: "HandleGet (handler world_blue) = [hradec_blue]" "length (Cities (handler world_blue)) = 1"
    by (simp_all add: world_blue_def HandleGet_def)
  have c: "0 < unat (R hradec_blue) + unat (G hradec_blue) + unat (B hradec_blue)"
    using snapshot_only_raining [OF r0, of env_blue Running world_blue] tick_env_blue g(1) by simp
  have d: "CitiesWithRain (handler (snd (tick env_dry world_blue))) = []"
    using snapshot_only_raining [OF r, of env_dry "fst (tick env_dry world_blue)" "snd (tick env_dry world_blue)"]
      prepare_env_dry dry_hradec [of "f2i env_dry"] g(2) by simp
  have k: "handler (snd (tick env_late_404 world_blue)) = handler world_blue"
    using snapshot_only_raining [OF r, of env_late_404 "fst (tick env_late_404 world_blue)"
        "snd (tick env_late_404 world_blue)"] p by simp
  show ?thesis
    using r g(1) c prepare_env_dry dry_hradec [of "f2i env_dry"] d p k by (simp add: HandleGet_def)
qed

section \<open>Readers never see a list half built\<close>

lemma conc_inv_init: "conc_inv impl bitmap h0 (init h0)"
  by (simp add: conc_inv_def init_def writer_ok_def reader_ok_def)

lemma loop_at_locked:
  assumes "wf_image bitmap" and "i \<le> length (Cities h0)" and "loop_at impl bitmap h0 i = Result (b, h)"
  shows "m_locked h" and "length (Cities h) = length (Cities h0)"
  using loop_inv_at [OF assms(1,2), of impl] assms(3) by (auto simp: loop_inv_def)

lemma writer_locked:
  assumes "wf_image bitmap" and "writer_ok impl bitmap h0 c" and "\<not> m_locked h0"
  shows "m_locked (shared c) \<longleftrightarrow> ws c = W_locked \<or> (\<exists>i b. ws c = W_loop i b)"
  using assms loop_at_locked(1) [OF assms(1)]
  by (cases "ws c") (auto simp: writer_ok_def)

lemma no_reader_inside:
  assumes "finite {j. in_cs (rs c j)}" and "0 = card {j. in_cs (rs c j)}"
  shows "\<not> in_cs (rs c j)"
  using assms by auto

lemma reader_ok_outside:
  assumes "reader_ok impl bitmap h0 c r" and "\<not> in_cs r"
  shows "reader_ok impl bitmap h0 c' r"
  using assms by (cases r) (simp_all add: reader_ok_def)


lemma writer_ok_fields:
  assumes "ws c' = ws c" and "shared c' = shared c" and "readerCount c' = readerCount c"
  shows "writer_ok impl bitmap h0 c' = writer_ok impl bitmap h0 c"
  unfolding writer_ok_def assms by (rule refl)

lemma reader_ok_fields:
  assumes "shared c' = shared c"
  shows "reader_ok impl bitmap h0 c' r = reader_ok impl bitmap h0 c r"
  unfolding reader_ok_def assms by (rule refl)

lemma writer_ok_unlocked:
  assumes "shared c' = shared c" and "ws c' = ws c" and "ws c = W_idle \<or> ws c = W_done"
    and "writer_ok impl bitmap h0 c"
  shows "writer_ok impl bitmap h0 c'"
  using assms by (auto simp: writer_ok_def)

lemma inside_enter:
  assumes "\<not> in_cs (f j)" and "in_cs r"
  shows "{i. in_cs ((f(j := r)) i)} = insert j {i. in_cs (f i)}"
  using assms by auto

lemma inside_stay:
  assumes "in_cs (f j)" and "in_cs r"
  shows "{i. in_cs ((f(j := r)) i)} = {i. in_cs (f i)}"
  using assms by auto

lemma inside_leave:
  assumes "in_cs (f j)" and "\<not> in_cs r"
  shows "{i. in_cs ((f(j := r)) i)} = {i. in_cs (f i)} - {j}"
  using assms by auto

lemma writer_step_inv:
  assumes inv: "conc_inv impl bitmap h0 c" and cnt: "readerCount c = 0"
    and rs: "rs c' = rs c" and cnt': "readerCount c' = 0"
    and w: "writer_ok impl bitmap h0 c'"
  shows "conc_inv impl bitmap h0 c'"
proof -
  have fin: "finite {j. in_cs (rs c j)}" and card: "readerCount c = card {j. in_cs (rs c j)}"
    and ok: "\<And>j. reader_ok impl bitmap h0 c (rs c j)"
    using inv by (simp_all add: conc_inv_def)
  have out: "\<not> in_cs (rs c j)" for j
    using no_reader_inside [OF fin] card cnt by simp
  have "reader_ok impl bitmap h0 c' (rs c j)" for j
    using reader_ok_outside [OF ok out] .
  then show ?thesis
    using fin card cnt cnt' w by (simp add: conc_inv_def rs)
qed

lemma step_inv:
  assumes wf: "wf_image bitmap" and h0: "\<not> m_locked h0"
    and inv: "conc_inv impl bitmap h0 c" and st: "step impl bitmap c c'"
  shows "conc_inv impl bitmap h0 c'"
proof -
  have fin: "finite {j. in_cs (rs c j)}" and card: "readerCount c = card {j. in_cs (rs c j)}"
    and wok: "writer_ok impl bitmap h0 c" and ok: "\<And>j. reader_ok impl bitmap h0 c (rs c j)"
    using inv by (simp_all add: conc_inv_def)
  note locked = writer_locked [OF wf wok h0]
  show ?thesis
    using st
  proof cases
    case Lock
    then show ?thesis
      using wok by (intro writer_step_inv [OF inv]) (simp_all add: writer_ok_def)
  next
    case Reset
    then show ?thesis
      using wok by (intro writer_step_inv [OF inv]) (simp_all add: writer_ok_def loop_at_def)
  next
    case (Body i b b' h')
    have i: "i \<le> length (Cities h0)" and at: "loop_at impl bitmap h0 i = Result (b, shared c)"
      and cnt: "readerCount c = 0"
      using wok Body(3) by (simp_all add: writer_ok_def)
    have "length (Cities (shared c)) = length (Cities h0)"
      using loop_at_locked(2) [OF wf i at] .
    then have "Suc i \<le> length (Cities h0)"
      using Body(4) by simp
    moreover have "loop_at impl bitmap h0 (Suc i) = Result (b', h')"
      using Body(5) by (simp add: loop_at_Suc at)
    ultimately show ?thesis
      using Body(1) cnt by (intro writer_step_inv [OF inv]) (simp_all add: writer_ok_def)
  next
    case (Fatal i b)
    have f: "ws c' = ws c" "shared c' = shared c" "readerCount c' = readerCount c" "rs c' = rs c"
      by (simp_all add: Fatal(1))
    show ?thesis
      using inv
      unfolding conc_inv_def f(3,4) writer_ok_fields [OF f(1,2,3)] reader_ok_fields [OF f(2)] .
  next
    case (Unlock i b)
    have i: "i \<le> length (Cities h0)" and at: "loop_at impl bitmap h0 i = Result (b, shared c)"
      and cnt: "readerCount c = 0"
      using wok Unlock(3) by (simp_all add: writer_ok_def)
    have "i = length (Cities h0)"
      using loop_at_locked(2) [OF wf i at] Unlock(4) by simp
    then have "classify_all impl bitmap h0 = Result (b, shared c)"
      using at by (simp add: classify_all_def)
    then show ?thesis
      using Unlock(1) cnt by (intro writer_step_inv [OF inv]) (simp_all add: writer_ok_def)
  next
    case (RLock j)
    have sh: "shared c' = shared c" "ws c' = ws c" and rs': "rs c' = (rs c)(j := R_locked)"
      and cnt': "readerCount c' = Suc (readerCount c)"
      by (simp_all add: RLock(1))
    have out: "\<not> in_cs (rs c j)"
      using RLock(3) by simp
    have set: "{i. in_cs (rs c' i)} = insert j {i. in_cs (rs c i)}"
      unfolding rs' using inside_enter [of "rs c" j R_locked] out by simp
    have c1: "finite {j. in_cs (rs c' j)}" "readerCount c' = card {j. in_cs (rs c' j)}"
      unfolding set cnt' using fin card out by simp_all
    have "ws c = W_idle \<or> ws c = W_done"
      using locked RLock(4) by (cases "ws c") auto
    then have c2: "writer_ok impl bitmap h0 c'"
      using wok sh by (rule writer_ok_unlocked [rotated 2])
    have new: "reader_ok impl bitmap h0 c R_locked"
      using RLock(4) by (simp add: reader_ok_def)
    have "reader_ok impl bitmap h0 c' (rs c' i)" for i
      unfolding reader_ok_fields [OF sh(1)] rs' using ok [of i] new by simp
    then show ?thesis
      using c1 c2 by (simp add: conc_inv_def)
  next
    case (Header j)
    have sh: "shared c' = shared c" "ws c' = ws c" "readerCount c' = readerCount c"
      and rs': "rs c' = (rs c)(j := R_encoding (CitiesWithRain (shared c)) 0 [])"
      by (simp_all add: Header(1))
    have ins: "in_cs (rs c j)"
      using Header(3) by simp
    have set: "{i. in_cs (rs c' i)} = {i. in_cs (rs c i)}"
      unfolding rs'
      using inside_stay [of "rs c" j "R_encoding (CitiesWithRain (shared c)) 0 []"] ins by simp
    have c2: "writer_ok impl bitmap h0 c'"
      using wok by (simp only: writer_ok_fields [OF sh(2,1,3)])
    have "\<not> m_locked (shared c)"
      using ok [of j] by (simp add: Header(3) reader_ok_def)
    then have new: "reader_ok impl bitmap h0 c (R_encoding (CitiesWithRain (shared c)) 0 [])"
      by (simp add: reader_ok_def)
    have "reader_ok impl bitmap h0 c' (rs c' i)" for i
      unfolding reader_ok_fields [OF sh(1)] rs' using ok [of i] new by simp
    then show ?thesis
      using fin card c2 by (simp add: conc_inv_def set sh(3))
  next
    case (Element j ps k acc)
    have sh: "shared c' = shared c" "ws c' = ws c" "readerCount c' = readerCount c"
      and rs': "rs c' = (rs c)(j := R_encoding ps (Suc k) (acc @ [Cities (shared c) ! (ps ! k)]))"
      by (simp_all add: Element(1))
    have ins: "in_cs (rs c j)"
      using Element(3) by simp
    have set: "{i. in_cs (rs c' i)} = {i. in_cs (rs c i)}"
      unfolding rs'
      using inside_stay [of "rs c" j "R_encoding ps (Suc k) (acc @ [Cities (shared c) ! (ps ! k)])"] ins
      by simp
    have c2: "writer_ok impl bitmap h0 c'"
      using wok by (simp only: writer_ok_fields [OF sh(2,1,3)])
    have old: "\<not> m_locked (shared c)" "ps = CitiesWithRain (shared c)"
      "acc = map (\<lambda>p. Cities (shared c) ! p) (take k ps)"
      using ok [of j] by (simp_all add: Element(3) reader_ok_def)
    have "acc @ [Cities (shared c) ! (ps ! k)] = map (\<lambda>p. Cities (shared c) ! p) (take (Suc k) ps)"
      using Element(4) old(3) by (simp add: take_Suc_conv_app_nth)
    then have new: "reader_ok impl bitmap h0 c
        (R_encoding ps (Suc k) (acc @ [Cities (shared c) ! (ps ! k)]))"
      using old(1,2) Element(4) by (simp add: reader_ok_def)
    have "reader_ok impl bitmap h0 c' (rs c' i)" for i
      unfolding reader_ok_fields [OF sh(1)] rs' using ok [of i] new by simp
    then show ?thesis
      using fin card c2 by (simp add: conc_inv_def set sh(3))
  next
    case (RUnlock j ps k acc)
    have sh: "shared c' = shared c" "ws c' = ws c" and rs': "rs c' = (rs c)(j := R_done acc)"
      and cnt': "readerCount c' = readerCount c - 1"
      by (simp_all add: RUnlock(1))
    have ins: "in_cs (rs c j)"
      using RUnlock(3) by simp
    have set: "{i. in_cs (rs c' i)} = {i. in_cs (rs c i)} - {j}"
      unfolding rs' using inside_leave [of "rs c" j "R_done acc"] ins by simp
    have c1: "finite {j. in_cs (rs c' j)}" "readerCount c' = card {j. in_cs (rs c' j)}"
      unfolding set cnt' using fin card ins by (simp_all add: card_Diff_singleton)
    have old: "\<not> m_locked (shared c)" "ps = CitiesWithRain (shared c)"
      "acc = map (\<lambda>p. Cities (shared c) ! p) (take k ps)"
      using ok [of j] by (simp_all add: RUnlock(3) reader_ok_def)
    have idle: "ws c = W_idle \<or> ws c = W_done"
      using locked old(1) by (cases "ws c") auto
    then have c2: "writer_ok impl bitmap h0 c'"
      using wok sh by (rule writer_ok_unlocked [rotated 2])
    have "acc = HandleGet (shared c)"
      using old(2,3) RUnlock(4) by (simp add: HandleGet_def)
    then have "published impl bitmap h0 acc"
      using idle wok by (auto simp: published_def writer_ok_def HandleGet_def)
    then have new: "reader_ok impl bitmap h0 c (R_done acc)"
      by (simp add: reader_ok_def)
    have "reader_ok impl bitmap h0 c' (rs c' i)" for i
      unfolding reader_ok_fields [OF sh(1)] rs' using ok [of i] new by simp
    then show ?thesis
      using c1 c2 by (simp add: conc_inv_def)
  qed
qed

lemma reachable_inv:
  assumes "wf_image bitmap" and "\<not> m_locked h0" and "(step impl bitmap)\<^sup>*\<^sup>* (init h0) c"
  shows "conc_inv impl bitmap h0 c"
  using assms(3)
proof (induction rule: rtranclp_induct)
  case base
  show ?case by (rule conc_inv_init)
next
  case (step c c')
  then show ?case
    using step_inv [OF assms(1,2)] by blast
qed

text \<open>
  C9. In every interleaving of one pass of the loop with any number of calls of
  \<^verbatim>\<open>HandleGet\<close>, whatever a reader returns is the whole list as it was before the pass or
  the whole list as the pass leaves it: never a list partly built, never a mix of the two.
\<close>

theorem readers_see_whole_snapshots:
  assumes "wf_image bitmap" and "\<not> m_locked h0" and "(step impl bitmap)\<^sup>*\<^sup>* (init h0) c"
    and "rs c j = R_done obs"
  shows "obs = HandleGet h0
    \<or> (\<exists>b h'. classify_all impl bitmap h0 = Result (b, h') \<and> obs = HandleGet h')"
proof -
  have "reader_ok impl bitmap h0 c (rs c j)"
    using reachable_inv [OF assms(1,2,3)] by (simp add: conc_inv_def)
  then show ?thesis
    by (simp add: assms(4) reader_ok_def published_def)
qed


lemma reader_elements:
  assumes "alive c" and "rs c j = R_encoding ps k acc" and "k \<le> length ps"
  shows "(step impl bitmap)\<^sup>*\<^sup>* c
    (c\<lparr>rs := (rs c)(j := R_encoding ps (length ps)
        (acc @ map (\<lambda>p. Cities (shared c) ! p) (drop k ps)))\<rparr>)"
  using assms
proof (induction "length ps - k" arbitrary: c k acc)
  case 0
  then have "k = length ps" by simp
  then have "c\<lparr>rs := (rs c)(j := R_encoding ps (length ps)
        (acc @ map (\<lambda>p. Cities (shared c) ! p) (drop k ps)))\<rparr> = c"
    using "0.prems"(2) by (simp add: fun_upd_idem)
  then show ?case by (simp only: rtranclp.rtrancl_refl)
next
  case (Suc n)
  then have k: "k < length ps" by simp
  define c1 where "c1 = c\<lparr>rs := (rs c)(j := R_encoding ps (Suc k) (acc @ [Cities (shared c) ! (ps ! k)]))\<rparr>"
  have s1: "step impl bitmap c c1"
    unfolding c1_def using Suc.prems(1,2) k by (rule step.Element)
  have n: "n = length ps - Suc k" and le: "Suc k \<le> length ps"
    using Suc.hyps(2) k by linarith+
  have c1: "alive c1" "rs c1 j = R_encoding ps (Suc k) (acc @ [Cities (shared c) ! (ps ! k)])"
    using Suc.prems(1) by (simp_all add: c1_def)
  have "(step impl bitmap)\<^sup>*\<^sup>* c1
    (c1\<lparr>rs := (rs c1)(j := R_encoding ps (length ps)
        ((acc @ [Cities (shared c) ! (ps ! k)]) @ map (\<lambda>p. Cities (shared c1) ! p) (drop (Suc k) ps)))\<rparr>)"
    using n c1 le by (rule Suc.hyps(1))
  moreover have "c1\<lparr>rs := (rs c1)(j := R_encoding ps (length ps)
        ((acc @ [Cities (shared c) ! (ps ! k)]) @ map (\<lambda>p. Cities (shared c1) ! p) (drop (Suc k) ps)))\<rparr>
      = c\<lparr>rs := (rs c)(j := R_encoding ps (length ps)
        (acc @ map (\<lambda>p. Cities (shared c) ! p) (drop k ps)))\<rparr>"
    using k by (simp add: c1_def Cons_nth_drop_Suc [symmetric])
  ultimately show ?case
    using s1 by (simp add: converse_rtranclp_into_rtranclp)
qed

text \<open>A whole call of \<^verbatim>\<open>HandleGet\<close> while the mutex is free.\<close>

lemma reader_run:
  assumes "alive c" and "rs c j = R_idle" and "\<not> m_locked (shared c)"
  shows "(step impl bitmap)\<^sup>*\<^sup>* c (c\<lparr>rs := (rs c)(j := R_done (HandleGet (shared c)))\<rparr>)"
proof -
  define ps where "ps = CitiesWithRain (shared c)"
  define c1 where "c1 = c\<lparr>readerCount := Suc (readerCount c), rs := (rs c)(j := R_locked)\<rparr>"
  define c2 where "c2 = c1\<lparr>rs := (rs c1)(j := R_encoding ps 0 [])\<rparr>"
  define c3 where "c3 = c2\<lparr>rs := (rs c2)(j := R_encoding ps (length ps)
        ([] @ map (\<lambda>p. Cities (shared c2) ! p) (drop 0 ps)))\<rparr>"
  define c4 where "c4 = c3\<lparr>readerCount := readerCount c3 - 1,
        rs := (rs c3)(j := R_done (map (\<lambda>p. Cities (shared c2) ! p) ps))\<rparr>"
  have s1: "step impl bitmap c c1"
    unfolding c1_def using assms by (rule step.RLock)
  have s2: "step impl bitmap c1 c2"
    unfolding c2_def ps_def
    using step.Header [of c1 j impl bitmap] assms(1) by (simp add: c1_def)
  have s3: "(step impl bitmap)\<^sup>*\<^sup>* c2 c3"
    unfolding c3_def using assms(1) by (intro reader_elements) (simp_all add: c2_def c1_def)
  have s4: "step impl bitmap c3 c4"
    unfolding c4_def
    using step.RUnlock [of c3 j ps "length ps" "map (\<lambda>p. Cities (shared c2) ! p) ps" impl bitmap] assms(1)
    by (simp add: c3_def c2_def c1_def)
  have "c4 = c\<lparr>rs := (rs c)(j := R_done (HandleGet (shared c)))\<rparr>"
    by (simp add: c4_def c3_def c2_def c1_def HandleGet_def ps_def)
  then show ?thesis
    using s1 s2 s3 s4 by (metis converse_rtranclp_into_rtranclp rtranclp.rtrancl_into_rtrancl)
qed

lemma writer_bodies:
  assumes "wf_image bitmap" and "alive c" and "ws c = W_loop i b"
    and "loop_at impl bitmap h0 i = Result (b, shared c)" and "i \<le> length (Cities h0)"
    and "loop_at impl bitmap h0 (length (Cities h0)) = Result (bn, hn)"
  shows "(step impl bitmap)\<^sup>*\<^sup>* c (c\<lparr>shared := hn, ws := W_loop (length (Cities h0)) bn\<rparr>)"
  using assms(2-5)
proof (induction "length (Cities h0) - i" arbitrary: c i b)
  case 0
  then have "i = length (Cities h0)" by simp
  then have "c\<lparr>shared := hn, ws := W_loop (length (Cities h0)) bn\<rparr> = c"
    using "0.prems"(2,3) assms(6) by simp
  then show ?case by (simp only: rtranclp.rtrancl_refl)
next
  case (Suc n)
  then have i: "i < length (Cities h0)" by simp
  obtain b' h' where nxt: "loop_at impl bitmap h0 (Suc i) = Result (b', h')"
    using loop_inv_at [OF assms(1), of "Suc i" h0 impl] i by auto
  define c1 where "c1 = c\<lparr>shared := h', ws := W_loop (Suc i) b'\<rparr>"
  have "length (Cities (shared c)) = length (Cities h0)"
    using loop_at_locked(2) [OF assms(1) Suc.prems(4,3)] .
  moreover have "classify impl (lonPixelSize bitmap) (latPixelSize bitmap) i (Result (b, shared c))
      = Result (b', h')"
    using nxt by (simp add: loop_at_Suc Suc.prems(3))
  ultimately have s1: "step impl bitmap c c1"
    unfolding c1_def using Suc.prems(1,2) i by (intro step.Body) simp_all
  have n: "n = length (Cities h0) - Suc i" and le: "Suc i \<le> length (Cities h0)"
    using Suc.hyps(2) i by linarith+
  have c1: "alive c1" "ws c1 = W_loop (Suc i) b'" "loop_at impl bitmap h0 (Suc i) = Result (b', shared c1)"
    using Suc.prems(1) nxt by (simp_all add: c1_def)
  have "(step impl bitmap)\<^sup>*\<^sup>* c1 (c1\<lparr>shared := hn, ws := W_loop (length (Cities h0)) bn\<rparr>)"
    using n c1 le by (rule Suc.hyps(1))
  moreover have "c1\<lparr>shared := hn, ws := W_loop (length (Cities h0)) bn\<rparr>
      = c\<lparr>shared := hn, ws := W_loop (length (Cities h0)) bn\<rparr>"
    by (simp add: c1_def)
  ultimately show ?case
    using s1 by (simp add: converse_rtranclp_into_rtranclp)
qed

text \<open>A whole critical section of the loop while no reader holds the mutex.\<close>

lemma writer_run:
  assumes "wf_image bitmap" and "alive c" and "ws c = W_idle" and "\<not> m_locked (shared c)"
    and "readerCount c = 0" and "classify_all impl bitmap (shared c) = Result (bn, hn)"
  shows "(step impl bitmap)\<^sup>*\<^sup>* c (c\<lparr>shared := hn\<lparr>m_locked := False\<rparr>, ws := W_done\<rparr>)"
proof -
  define h0 where "h0 = shared c"
  define n where "n = length (Cities h0)"
  define c1 where "c1 = c\<lparr>shared := h0\<lparr>m_locked := True\<rparr>, ws := W_locked\<rparr>"
  define c2 where "c2 = c1\<lparr>shared := (shared c1)\<lparr>CitiesWithRain := []\<rparr>, ws := W_loop 0 bitmap\<rparr>"
  define c3 where "c3 = c2\<lparr>shared := hn, ws := W_loop n bn\<rparr>"
  define c4 where "c4 = c3\<lparr>shared := (shared c3)\<lparr>m_locked := False\<rparr>, ws := W_done\<rparr>"
  have fin: "loop_at impl bitmap h0 n = Result (bn, hn)"
    using assms(6) by (simp add: classify_all_def h0_def n_def)
  have s1: "step impl bitmap c c1"
    unfolding c1_def h0_def using assms(2-5) by (rule step.Lock)
  have s2: "step impl bitmap c1 c2"
    unfolding c2_def using step.Reset [of c1 impl bitmap] assms(2) by (simp add: c1_def)
  have s3: "(step impl bitmap)\<^sup>*\<^sup>* c2 c3"
    unfolding c3_def n_def
    using assms(1,2) fin
    by (intro writer_bodies [where i = 0 and b = bitmap])
      (simp_all add: c2_def c1_def loop_at_def n_def)
  have "n = length (Cities hn)"
    using loop_at_locked(2) [OF assms(1) _ fin] by (simp add: n_def)
  then have s4: "step impl bitmap c3 c4"
    unfolding c4_def using step.Unlock [of c3 n bn impl bitmap] assms(2)
    by (simp add: c3_def c2_def c1_def)
  have "c4 = c\<lparr>shared := hn\<lparr>m_locked := False\<rparr>, ws := W_done\<rparr>"
    by (simp add: c4_def c3_def c2_def c1_def)
  then show ?thesis
    using s1 s2 s3 s4 by (metis converse_rtranclp_into_rtranclp rtranclp.rtrancl_into_rtrancl)
qed


theorem readers_see_whole_snapshots_witness:
  "wf_image (Clone blue) \<and> \<not> m_locked (handler world0)
   \<and> (step (\<lambda>v. 0) (Clone blue))\<^sup>*\<^sup>* (init (handler world0)) after_blue
   \<and> HandleGet (handler world0) = []
   \<and> rs after_blue 0 = R_done []
   \<and> rs after_blue 1 = R_done [hradec_blue]
   \<and> ([hradec_blue] = HandleGet (handler world0)
      \<or> (\<exists>b h'. classify_all (\<lambda>v. 0) (Clone blue) (handler world0) = Result (b, h')
            \<and> [hradec_blue] = HandleGet h'))"
proof -
  define h0 where "h0 = handler world0"
  define hn where "hn = \<lparr>m_locked = True, Cities = [hradec_blue], CitiesWithRain = [0 :: nat]\<rparr>"
  obtain b where cl: "classify_all (\<lambda>v. 0) (Clone blue) h0 = Result (b, hn)"
    using classify_all_blue [of "\<lambda>v. 0"] by (auto simp: h0_def hn_def)
  have h0: "\<not> m_locked h0" "HandleGet h0 = []"
    by (simp_all add: h0_def world0_def start_def LoadCities_def HandleGet_def)
  define ca where "ca = (init h0)\<lparr>rs := (rs (init h0))(0 := R_done (HandleGet (shared (init h0))))\<rparr>"
  define cb where "cb = ca\<lparr>shared := hn\<lparr>m_locked := False\<rparr>, ws := W_done\<rparr>"
  define cc where "cc = cb\<lparr>rs := (rs cb)(1 := R_done (HandleGet (shared cb)))\<rparr>"
  have r1: "(step (\<lambda>v. 0) (Clone blue))\<^sup>*\<^sup>* (init h0) ca"
    unfolding ca_def using h0(1) by (intro reader_run) (simp_all add: init_def)
  have r2: "(step (\<lambda>v. 0) (Clone blue))\<^sup>*\<^sup>* ca cb"
    unfolding cb_def using h0(1) cl by (intro writer_run [OF Clone_wf]) (simp_all add: ca_def init_def)
  have r3: "(step (\<lambda>v. 0) (Clone blue))\<^sup>*\<^sup>* cb cc"
    unfolding cc_def by (intro reader_run) (simp_all add: cb_def ca_def init_def hn_def)
  have e: "CitiesWithRain h0 = []"
    by (simp add: h0_def world0_def start_def LoadCities_def)
  have "cc = after_blue"
    by (auto simp: cc_def cb_def ca_def init_def hn_def after_blue_def HandleGet_def e fun_eq_iff)
  then have run: "(step (\<lambda>v. 0) (Clone blue))\<^sup>*\<^sup>* (init h0) after_blue"
    using r1 r2 r3 by (metis rtranclp_trans)
  have obs: "rs after_blue 0 = R_done []" "rs after_blue 1 = R_done [hradec_blue]"
    by (simp_all add: after_blue_def)
  show ?thesis
    using readers_see_whole_snapshots [OF Clone_wf h0(1) run obs(2)] run h0 obs
    by (simp add: h0_def Clone_wf)
qed

section \<open>Sampling outside the image\<close>

lemma outside_far: "outside (Clone olive) 100 100"
  unfolding outside_def by code_simp

text \<open>
  C10. On an image whose buffer holds its rectangle (every image \<^verbatim>\<open>imaging.Clone\<close>
  answers, and every image the markers are drawn on), \<^verbatim>\<open>getAvgColor\<close> answers a colour
  for every \<open>(x, y)\<close>, with no read out of range, because \<^verbatim>\<open>At\<close> answers the zero colour
  outside the rectangle. Where all 81 pixels of the neighbourhood lie outside, the average
  is \<open>(0, 0, 0)\<close>; the loop over the cities never panics, and a city projected to such a
  point is not in the list the loop builds.
\<close>

theorem sampling_never_faults:
  assumes "wf_image bitmap"
  shows "getAvgColor bitmap x y \<noteq> None
    \<and> (outside bitmap x y \<longrightarrow> getAvgColor bitmap x y = Some (0, 0, 0))
    \<and> classify_all impl bitmap h \<noteq> Panic
    \<and> (\<forall>b' h' i. classify_all impl bitmap h = Result (b', h') \<longrightarrow> i < length (Cities h) \<longrightarrow>
          (case project impl (lonPixelSize bitmap) (latPixelSize bitmap)
                  (Lat (Cities h ! i)) (Lon (Cities h ! i)) of
             (cx, cy) \<Rightarrow> outside bitmap cx cy) \<longrightarrow>
          i \<notin> set (CitiesWithRain h'))"
proof (intro conjI allI impI)
  show "getAvgColor bitmap x y \<noteq> None"
    by (rule getAvgColor_total [OF assms])
  show "getAvgColor bitmap x y = Some (0, 0, 0)" if "outside bitmap x y"
    using that by (rule getAvgColor_outside)
  show "classify_all impl bitmap h \<noteq> Panic"
    using classify_all_inv [OF assms, of impl h] by auto
next
  fix b' h' i
  assume cl: "classify_all impl bitmap h = Result (b', h')" and i: "i < length (Cities h)"
    and out: "case project impl (lonPixelSize bitmap) (latPixelSize bitmap)
                  (Lat (Cities h ! i)) (Lon (Cities h ! i)) of
             (cx, cy) \<Rightarrow> outside bitmap cx cy"
  have inv: "loop_inv impl bitmap h (length (Cities h)) b' h'"
    using classify_all_inv [OF assms, of impl h] cl by simp
  obtain b hi where at: "loop_at impl bitmap h i = Result (b, hi)" and "loop_inv impl bitmap h i b hi"
    using loop_inv_at [OF assms, of i h impl] i by auto
  then have rect: "Rect b = Rect bitmap"
    by (simp add: loop_inv_def)
  obtain cx cy where xy: "project impl (lonPixelSize bitmap) (latPixelSize bitmap)
      (Lat (Cities h ! i)) (Lon (Cities h ! i)) = (cx, cy)"
    by (cases "project impl (lonPixelSize bitmap) (latPixelSize bitmap)
      (Lat (Cities h ! i)) (Lon (Cities h ! i))")
  have "outside b cx cy"
    using out by (simp add: xy outside_def rect)
  then have "sampled impl bitmap h i = Some (0, 0, 0)"
    by (simp add: sampled_def at xy getAvgColor_outside)
  then have "\<not> rains impl bitmap h i"
    by (simp add: rains_def)
  then show "i \<notin> set (CitiesWithRain h')"
    using inv by (simp add: loop_inv_def)
qed

theorem sampling_never_faults_witness:
  "wf_image (Clone olive) \<and> outside (Clone olive) 100 100
   \<and> getAvgColor (Clone olive) 100 100 = Some (0, 0, 0)
   \<and> classify_all (\<lambda>_. 0) (Clone olive) (handler world0) \<noteq> Panic"
  using sampling_never_faults [OF Clone_wf, of olive 100 100 "\<lambda>_. 0" "handler world0"] outside_far
  by (simp add: Clone_wf)

end
